theory Spec2Isabelle
  imports Complex_Main "HOL-Library.Char_ord" "HOL-Library.Word"
begin

unbundle bit_operations_syntax

section \<open>Standard-library functions used by \<open>client.go\<close>\<close>

text \<open>
  Go strings are byte sequences; they are modelled as \<open>string\<close> (a list of 8-bit
  characters), and a byte is read as a number with \<open>of_char\<close>.
\<close>

datatype strconv_err = ErrSyntax | ErrRange

text \<open>
  The errors of the package. \<open>NumError\<close> is the \<open>*strconv.NumError\<close> of
  \<open>strconv.ParseInt\<close> (its \<open>Num\<close> field and its \<open>Err\<close> field); the other
  constructors are the \<open>fmt.Errorf\<close> messages of \<open>client.go\<close>, with the wrapped
  error where the message wraps one.
\<close>

datatype error =
    NumError string strconv_err
  | UnexpectedLogicalName string
  | MeterIDNotSet
  | FailedToGetMeterValues error
  | NoValidMeterValues
  | FailedToGetContracts error
  | NoContractWithSensorDomains
  | RequestFailed string
  | UnexpectedStatusCode int
  | FailedToReadBody string
  | FailedToUnmarshal string

subsection \<open>\<open>strconv.ParseUint(s, 16, 64)\<close> and \<open>strconv.ParseInt(s, 16, 64)\<close>\<close>

definition lower :: "int \<Rightarrow> int" where
  \<comment> \<open>\<open>lower(c) = c | ('x' - 'X')\<close>\<close>
  "lower c = c OR 32"

definition digit_of :: "char \<Rightarrow> int option" where
  \<comment> \<open>the \<open>switch\<close> on the byte \<open>c\<close> in the loop of \<open>ParseUint\<close>; \<open>None\<close> is its
      \<open>default\<close> branch\<close>
  "digit_of ch =
     (let c = (of_char ch :: int) in
      if 48 \<le> c \<and> c \<le> 57 then Some (c - 48)
      else if 97 \<le> lower c \<and> lower c \<le> 122 then Some (lower c - 97 + 10)
      else None)"

definition maxUint64 :: int where
  "maxUint64 = 2 ^ 64 - 1"

fun ParseUint_loop :: "int \<Rightarrow> string \<Rightarrow> strconv_err + int" where
  "ParseUint_loop n [] = Inr n"
| "ParseUint_loop n (ch # cs) =
     (case digit_of ch of
        None \<Rightarrow> Inl ErrSyntax
      | Some d \<Rightarrow>
          if d \<ge> 16 then Inl ErrSyntax
          else if n \<ge> maxUint64 div 16 + 1 then Inl ErrRange
          else
            let n' = (n * 16) mod 2 ^ 64;
                n1 = (n' + d) mod 2 ^ 64
            in if n1 < n' \<or> n1 > maxUint64 then Inl ErrRange
               else ParseUint_loop n1 cs)"

definition ParseUint :: "string \<Rightarrow> strconv_err + int" where
  "ParseUint s = (if s = [] then Inl ErrSyntax else ParseUint_loop 0 s)"

definition ParseInt :: "string \<Rightarrow> error + int" where
  "ParseInt s0 =
     (if s0 = [] then Inl (NumError s0 ErrSyntax)
      else
        let neg = (hd s0 = CHR ''-'');
            s = (if hd s0 = CHR ''+'' \<or> hd s0 = CHR ''-'' then tl s0 else s0)
        in case ParseUint s of
             Inl ErrSyntax \<Rightarrow> Inl (NumError s0 ErrSyntax)
           | r \<Rightarrow>
               let un = (case r of Inr u \<Rightarrow> u | Inl _ \<Rightarrow> maxUint64)
               in if \<not> neg \<and> un \<ge> 2 ^ 63 then Inl (NumError s0 ErrRange)
                  else if neg \<and> un > 2 ^ 63 then Inl (NumError s0 ErrRange)
                  else Inr (if neg then - un else un))"

subsection \<open>\<open>fmt.Sprintf("%d", i)\<close>\<close>

fun digits :: "nat \<Rightarrow> string" where
  "digits n =
     (if n < 10 then [char_of (48 + n)]
      else digits (n div 10) @ [char_of (48 + n mod 10)])"

definition Sprintf_d :: "int \<Rightarrow> string" where
  "Sprintf_d i = (if i < 0 then CHR ''-'' # digits (nat (- i)) else digits (nat i))"

text \<open>The number a string of decimal digits stands for.\<close>

definition decimal_value :: "string \<Rightarrow> nat" where
  "decimal_value s = foldl (\<lambda>acc c. 10 * acc + (of_char c - 48)) 0 s"

text \<open>
  \<open>is_decimal_of s i\<close>: the string \<open>s\<close> is the decimal numeral of the number \<open>i\<close>, that
  is, a non-empty string of decimal digits, without a leading zero unless it is
  \<open>"0"\<close>, that stands for \<open>i\<close>.
\<close>

definition is_digit :: "char \<Rightarrow> bool" where
  "is_digit c \<longleftrightarrow> c \<in> set ''0123456789''"

definition is_decimal_of :: "string \<Rightarrow> int \<Rightarrow> bool" where
  "is_decimal_of s i \<longleftrightarrow>
     s \<noteq> [] \<and> list_all is_digit s \<and> (hd s = CHR ''0'' \<longrightarrow> s = ''0'') \<and>
     int (decimal_value s) = i"

subsection \<open>\<open>strings.SplitN(s, ".", 2)\<close>\<close>

definition SplitN_dot_2 :: "string \<Rightarrow> string list" where
  "SplitN_dot_2 s =
     (case dropWhile (\<lambda>c. c \<noteq> CHR ''.'') s of
        [] \<Rightarrow> [s]
      | _ # rest \<Rightarrow> [takeWhile (\<lambda>c. c \<noteq> CHR ''.'') s, rest])"

section \<open>\<open>convertToOBIS\<close>\<close>

definition convertToOBIS :: "string \<Rightarrow> error + string" where
  "convertToOBIS logicalName =
     (let hex = hd (SplitN_dot_2 logicalName) in
      if length hex \<noteq> 12 then Inl (UnexpectedLogicalName logicalName)
      else case ParseInt (take 2 (drop 4 hex)) of
        Inl err \<Rightarrow> Inl err
      | Inr c \<Rightarrow>
     (case ParseInt (take 2 (drop 6 hex)) of
        Inl err \<Rightarrow> Inl err
      | Inr d \<Rightarrow>
     (case ParseInt (take 2 (drop 8 hex)) of
        Inl err \<Rightarrow> Inl err
      | Inr e \<Rightarrow>
          Inr (Sprintf_d c @ ''.'' @ Sprintf_d d @ ''.'' @ Sprintf_d e))))"

text \<open>
  The notions the specification uses to describe \<open>convertToOBIS\<close>: the segment of a
  logical name before its first \<open>'.'\<close>, hexadecimal characters and their values, the
  value of a string of hexadecimal characters, and equality of characters up to the case
  of ASCII letters.
\<close>

definition segment :: "string \<Rightarrow> string" where
  "segment name = takeWhile (\<lambda>c. c \<noteq> CHR ''.'') name"

definition hex_table :: "(char \<times> int) list" where
  "hex_table = zip ''0123456789abcdef'' [0..15] @ zip ''ABCDEF'' [10..15]"

definition hex_val :: "char \<Rightarrow> int option" where
  "hex_val c = map_of hex_table c"

definition is_hex :: "char \<Rightarrow> bool" where
  "is_hex c \<longleftrightarrow> hex_val c \<noteq> None"

definition hex_value :: "string \<Rightarrow> int" where
  "hex_value s = foldl (\<lambda>acc c. 16 * acc + the (hex_val c)) 0 s"

definition ascii_lower :: "char \<Rightarrow> char" where
  "ascii_lower c =
     (case map_of (zip ''ABCDEFGHIJKLMNOPQRSTUVWXYZ'' ''abcdefghijklmnopqrstuvwxyz'') c of
        None \<Rightarrow> c
      | Some l \<Rightarrow> l)"

definition same_up_to_case :: "string \<Rightarrow> string \<Rightarrow> bool" where
  "same_up_to_case s t \<longleftrightarrow> map ascii_lower s = map ascii_lower t"

definition is_sign :: "char \<Rightarrow> bool" where
  "is_sign c \<longleftrightarrow> c = CHR ''+'' \<or> c = CHR ''-''"

text \<open>What \<open>convertToOBIS\<close> computes on a name whose segment has 12 characters.\<close>

definition pairs_result :: "string \<Rightarrow> error + string" where
  "pairs_result six =
     (case ParseInt (take 2 six) of
        Inl err \<Rightarrow> Inl err
      | Inr c \<Rightarrow>
     (case ParseInt (take 2 (drop 2 six)) of
        Inl err \<Rightarrow> Inl err
      | Inr d \<Rightarrow>
     (case ParseInt (take 2 (drop 4 six)) of
        Inl err \<Rightarrow> Inl err
      | Inr e \<Rightarrow>
          Inr (Sprintf_d c @ ''.'' @ Sprintf_d d @ ''.'' @ Sprintf_d e))))"

definition hex12 :: "string \<Rightarrow> bool" where
  "hex12 s \<longleftrightarrow> length s = 12 \<and> list_all is_hex s"

text \<open>
  The segments that \<open>convertToOBIS\<close> is shown to reject: the length is not 12, or one of
  the characters 4 to 9 is not hexadecimal, a sign character in the first place of a pair
  apart.
\<close>

definition malformed :: "string \<Rightarrow> bool" where
  "malformed s \<longleftrightarrow>
     length s \<noteq> 12 \<or>
     \<not> (is_hex (s ! 4) \<or> is_sign (s ! 4)) \<or> \<not> is_hex (s ! 5) \<or>
     \<not> (is_hex (s ! 6) \<or> is_sign (s ! 6)) \<or> \<not> is_hex (s ! 7) \<or>
     \<not> (is_hex (s ! 8) \<or> is_sign (s ! 8)) \<or> \<not> is_hex (s ! 9)"

section \<open>\<open>defaultScheme\<close>\<close>

definition HasPrefix :: "string \<Rightarrow> string \<Rightarrow> bool" where
  \<comment> \<open>\<open>strings.HasPrefix(s, prefix)\<close>\<close>
  "HasPrefix s p \<longleftrightarrow> length s \<ge> length p \<and> take (length p) s = p"

definition defaultScheme :: "string \<Rightarrow> string \<Rightarrow> string" where
  "defaultScheme uri scheme =
     (if \<not> HasPrefix uri ''http://'' \<and> \<not> HasPrefix uri ''https://''
      then scheme @ ''://'' @ uri
      else uri)"

section \<open>The client\<close>

text \<open>
  Modelled from the spec: the declarations of \<open>MeterReading\<close> and
  \<open>DerivedContract\<close> are not among the sources (section 6 of the specification gives
  the wire format). Their fields are the ones \<open>client.go\<close> reads, with the types it uses them
  at: \<open>Value\<close> goes to \<open>strconv.ParseFloat\<close>, \<open>Scaler\<close> is converted by
  \<open>float64(...)\<close>, \<open>Unit\<close> is matched against integer constants.
\<close>

record MeterValue =
  LogicalName :: string
  Value :: string
  Scaler :: int
  Unit :: int

record MeterReading =
  Values :: "MeterValue list"

record DerivedContract =
  SensorDomains :: "string list"

record Client =
  uri :: string
  meterID :: string

text \<open>
  What lies outside the package is a parameter of the model.

  \<^item> The HTTP client and \<open>encoding/json\<close>: \<open>Get\<close> is \<open>c.httpClient.Get\<close>, which
    returns an error or a response with a status code and a body whose reading
    (\<open>io.ReadAll\<close>) may fail; the three \<open>Unmarshal\<close> functions are
    \<open>json.Unmarshal\<close> at the three result types \<open>getJSON\<close> is called with. A gateway
    answers as a function of the URI.
  \<^item> The type \<open>float64\<close> and its operations: \<open>'f\<close> is the type of floating-point
    values, \<open>ParseFloat\<close> is \<open>strconv.ParseFloat(s, 64)\<close>, \<open>math_Pow\<close> is \<open>math.Pow\<close>,
    \<open>float64\<close> is the conversion of an integer (and of the integer constants 10 and
    1000), \<open>mul\<close> and \<open>quo\<close> are \<open>*\<close> and \<open>/\<close>.
\<close>

record http_response =
  StatusCode :: int
  Body :: "string + string"

record gateway =
  Get :: "string \<Rightarrow> string + http_response"
  Unmarshal_strings :: "string \<Rightarrow> string + string list"
  Unmarshal_DerivedContract :: "string \<Rightarrow> string + DerivedContract"
  Unmarshal_MeterReading :: "string \<Rightarrow> string + MeterReading"

record 'f float64_ops =
  ParseFloat :: "string \<Rightarrow> error + 'f"
  math_Pow :: "'f \<Rightarrow> 'f \<Rightarrow> 'f"
  float64 :: "int \<Rightarrow> 'f"
  mul :: "'f \<Rightarrow> 'f \<Rightarrow> 'f"
  quo :: "'f \<Rightarrow> 'f \<Rightarrow> 'f"

definition getJSON ::
  "(string \<Rightarrow> string + http_response) \<Rightarrow> (string \<Rightarrow> string + 'a) \<Rightarrow> string \<Rightarrow> error + 'a"
where
  "getJSON get unmarshal u =
     (case get u of
        Inl err \<Rightarrow> Inl (RequestFailed err)
      | Inr resp \<Rightarrow>
          if StatusCode resp \<noteq> 200 then Inl (UnexpectedStatusCode (StatusCode resp))
          else (case Body resp of
                  Inl err \<Rightarrow> Inl (FailedToReadBody err)
                | Inr body \<Rightarrow>
                    (case unmarshal body of
                       Inl err \<Rightarrow> Inl (FailedToUnmarshal err)
                     | Inr result \<Rightarrow> Inr result)))"

subsection \<open>\<open>DiscoverMeterID\<close>\<close>

definition contract_uri :: "Client \<Rightarrow> string \<Rightarrow> string" where
  \<comment> \<open>\<open>fmt.Sprintf("%s/json/metering/derived/%s", c.uri, id)\<close>\<close>
  "contract_uri c ident = uri c @ ''/json/metering/derived/'' @ ident"

fun DiscoverMeterID_loop :: "gateway \<Rightarrow> Client \<Rightarrow> string list \<Rightarrow> error + Client" where
  "DiscoverMeterID_loop G c [] = Inl NoContractWithSensorDomains"
| "DiscoverMeterID_loop G c (ident # rest) =
     (case getJSON (Get G) (Unmarshal_DerivedContract G) (contract_uri c ident) of
        Inl err \<Rightarrow> DiscoverMeterID_loop G c rest
      | Inr contract \<Rightarrow>
          if length (SensorDomains contract) > 0
          then Inr (c\<lparr>meterID := SensorDomains contract ! 0\<rparr>)
          else DiscoverMeterID_loop G c rest)"

definition DiscoverMeterID :: "gateway \<Rightarrow> Client \<Rightarrow> error + Client" where
  "DiscoverMeterID G c =
     (case getJSON (Get G) (Unmarshal_strings G) (uri c @ ''/json/metering/derived'') of
        Inl err \<Rightarrow> Inl (FailedToGetContracts err)
      | Inr contracts \<Rightarrow> DiscoverMeterID_loop G c contracts)"

subsection \<open>\<open>GetMeterValues\<close>\<close>

definition reading_uri :: "Client \<Rightarrow> string" where
  \<comment> \<open>\<open>fmt.Sprintf("%s/json/metering/origin/%s/extended", c.uri, c.meterID)\<close>\<close>
  "reading_uri c = uri c @ ''/json/metering/origin/'' @ meterID c @ ''/extended''"

definition GetMeterValues_item ::
  "'f float64_ops \<Rightarrow> (string \<rightharpoonup> 'f) \<Rightarrow> MeterValue \<Rightarrow> (string \<rightharpoonup> 'f)"
where
  \<comment> \<open>the body of the loop over \<open>reading.Values\<close>; \<open>continue\<close> leaves the map as it is\<close>
  "GetMeterValues_item F vals item =
     (case convertToOBIS (LogicalName item) of
        Inl err \<Rightarrow> vals
      | Inr obis \<Rightarrow>
          (case ParseFloat F (Value item) of
             Inl err \<Rightarrow> vals
           | Inr raw \<Rightarrow>
               let val = mul F raw (math_Pow F (float64 F 10) (float64 F (Scaler item)))
               in if Unit item = 27 then vals(obis \<mapsto> val)
                  else if Unit item = 30 then vals(obis \<mapsto> quo F val (float64 F 1000))
                  else if Unit item = 33 then vals(obis \<mapsto> val)
                  else if Unit item = 35 then vals(obis \<mapsto> val)
                  else if Unit item = 44 then vals(obis \<mapsto> val)
                  else vals))"

definition GetMeterValues ::
  "'f float64_ops \<Rightarrow> gateway \<Rightarrow> Client \<Rightarrow> error + (string \<rightharpoonup> 'f)"
where
  "GetMeterValues F G c =
     (if meterID c = [] then Inl MeterIDNotSet
      else
        case getJSON (Get G) (Unmarshal_MeterReading G) (reading_uri c) of
          Inl err \<Rightarrow> Inl (FailedToGetMeterValues err)
        | Inr reading \<Rightarrow>
            let vals = foldl (GetMeterValues_item F) Map.empty (Values reading)
            in if vals = Map.empty then Inl NoValidMeterValues else Inr vals)"

text \<open>
  The notions in which the properties of \<open>GetMeterValues\<close> are stated. An item
  survives when its
  logical name converts, its value parses and its unit code is one of the five of the
  \<open>switch\<close>; \<open>converted\<close> is the value stored for it: the raw value times ten to
  the scaler, divided by 1000 for unit 30. \<open>fetched G c reading\<close> says that the
  meter ID is set and that the fetch and the decoding of the document succeed with
  \<open>reading\<close>. \<open>latest F items k\<close> is the converted value of the last surviving item
  with key \<open>k\<close>.
\<close>

definition known_unit :: "int \<Rightarrow> bool" where
  "known_unit u \<longleftrightarrow> u \<in> {27, 30, 33, 35, 44}"

definition survives :: "'f float64_ops \<Rightarrow> MeterValue \<Rightarrow> bool" where
  "survives F item \<longleftrightarrow>
     \<not> isl (convertToOBIS (LogicalName item)) \<and>
     \<not> isl (ParseFloat F (Value item)) \<and>
     known_unit (Unit item)"

definition obis_key :: "MeterValue \<Rightarrow> string" where
  "obis_key item = projr (convertToOBIS (LogicalName item))"

definition converted :: "'f float64_ops \<Rightarrow> MeterValue \<Rightarrow> 'f" where
  "converted F item =
     (let scaled = mul F (projr (ParseFloat F (Value item)))
                     (math_Pow F (float64 F 10) (float64 F (Scaler item)))
      in if Unit item = 30 then quo F scaled (float64 F 1000) else scaled)"

definition fetched :: "gateway \<Rightarrow> Client \<Rightarrow> MeterReading \<Rightarrow> bool" where
  "fetched G c reading \<longleftrightarrow>
     meterID c \<noteq> [] \<and>
     getJSON (Get G) (Unmarshal_MeterReading G) (reading_uri c) = Inr reading"

definition latest :: "'f float64_ops \<Rightarrow> MeterValue list \<Rightarrow> string \<Rightarrow> 'f option" where
  "latest F items k =
     (case filter (\<lambda>item. survives F item \<and> obis_key item = k) items of
        [] \<Rightarrow> None
      | x # xs \<Rightarrow> Some (converted F (last (x # xs))))"

text \<open>
  Concrete parameters, for evaluating the model: a gateway that answers every request
  with status 200 and a body decoding to a given document, and arithmetic on the reals
  without rounding, reading a string of decimal digits as its number.
\<close>

definition serving :: "MeterReading \<Rightarrow> gateway" where
  "serving reading =
     \<lparr>Get = (\<lambda>u. Inr \<lparr>StatusCode = 200, Body = Inr u\<rparr>),
      Unmarshal_strings = (\<lambda>b. Inl ''cannot unmarshal object into []string''),
      Unmarshal_DerivedContract = (\<lambda>b. Inl ''unexpected document''),
      Unmarshal_MeterReading = (\<lambda>b. Inr reading)\<rparr>"

definition parse_digits :: "string \<Rightarrow> error + real" where
  "parse_digits s =
     (if s \<noteq> [] \<and> list_all (\<lambda>c. CHR ''0'' \<le> c \<and> c \<le> CHR ''9'') s
      then Inr (of_nat (decimal_value s))
      else Inl (NumError s ErrSyntax))"

definition exact_ops :: "real float64_ops" where
  "exact_ops =
     \<lparr>ParseFloat = parse_digits, math_Pow = (\<lambda>x y. x powr y), float64 = of_int,
      mul = (\<lambda>x y. x * y), quo = (\<lambda>x y. x / y)\<rparr>"

text \<open>Example items, documents and a client, for evaluating the model.\<close>

definition item_energy :: MeterValue where
  "item_energy = \<lparr>LogicalName = ''0100010800ff.255'', Value = ''150'', Scaler = 2, Unit = 30\<rparr>"

definition item_power :: MeterValue where
  "item_power = \<lparr>LogicalName = ''0100100700ff'', Value = ''2345'', Scaler = 0, Unit = 27\<rparr>"

definition item_energy_again :: MeterValue where
  "item_energy_again = \<lparr>LogicalName = ''0100010800ff'', Value = ''2345'', Scaler = 0, Unit = 27\<rparr>"

definition item_bad_value :: MeterValue where
  "item_bad_value = \<lparr>LogicalName = ''0100010800ff'', Value = ''abc'', Scaler = 0, Unit = 27\<rparr>"

definition item_unknown_unit :: MeterValue where
  "item_unknown_unit = \<lparr>LogicalName = ''0100200700ff'', Value = ''230'', Scaler = 0, Unit = 99\<rparr>"

definition item_short_name :: MeterValue where
  "item_short_name = \<lparr>LogicalName = ''01000108.255'', Value = ''7'', Scaler = 0, Unit = 27\<rparr>"

definition document :: "MeterValue list \<Rightarrow> MeterReading" where
  "document items = \<lparr>Values = items\<rparr>"

definition example_client :: Client where
  "example_client = \<lparr>uri = ''https://192.168.33.2'', meterID = ''meter1''\<rparr>"

text \<open>
  The notions in which the property of \<open>DiscoverMeterID\<close> is stated: the fetch of a
  contract's
  detail document, the sensor-domain list a contract yields (none when its fetch
  fails), and the success of the fetch of the contract list. \<open>abc_gateway\<close> is an
  example: contract A has no sensor domains, B has X and Y, C has Z, and the fetch of
  D fails with status 404.
\<close>

definition fetch_contract :: "gateway \<Rightarrow> Client \<Rightarrow> string \<Rightarrow> error + DerivedContract" where
  "fetch_contract G c ident =
     getJSON (Get G) (Unmarshal_DerivedContract G) (contract_uri c ident)"

definition sensor_domains :: "gateway \<Rightarrow> Client \<Rightarrow> string \<Rightarrow> string list" where
  "sensor_domains G c ident =
     (case fetch_contract G c ident of
        Inl err \<Rightarrow> []
      | Inr contract \<Rightarrow> SensorDomains contract)"

definition contracts_fetched :: "gateway \<Rightarrow> Client \<Rightarrow> string list \<Rightarrow> bool" where
  "contracts_fetched G c contracts \<longleftrightarrow>
     getJSON (Get G) (Unmarshal_strings G) (uri c @ ''/json/metering/derived'') = Inr contracts"

definition abc_gateway :: "string list \<Rightarrow> gateway" where
  "abc_gateway contracts =
     \<lparr>Get = (\<lambda>u. if u = ''https://192.168.33.2/json/metering/derived/D''
                  then Inr \<lparr>StatusCode = 404, Body = Inr ''not found''\<rparr>
                  else Inr \<lparr>StatusCode = 200, Body = Inr u\<rparr>),
      Unmarshal_strings = (\<lambda>b. Inr contracts),
      Unmarshal_DerivedContract = (\<lambda>b.
         if b = ''https://192.168.33.2/json/metering/derived/A'' then Inr \<lparr>SensorDomains = []\<rparr>
         else if b = ''https://192.168.33.2/json/metering/derived/B''
           then Inr \<lparr>SensorDomains = [''X'', ''Y'']\<rparr>
         else if b = ''https://192.168.33.2/json/metering/derived/C''
           then Inr \<lparr>SensorDomains = [''Z'']\<rparr>
         else Inl ''unexpected end of JSON input''),
      Unmarshal_MeterReading = (\<lambda>b. Inl ''unexpected document'')\<rparr>"

section \<open>The digest authentication transport\<close>

text \<open>
  Modelled from the spec: the digest authentication transport (\<open>NewDigestTransport\<close> and
  the \<open>RoundTrip\<close> of the transport it returns) is not among the sources. The
  definitions below follow section 4.1 of the specification step by step. The base
  transport is a parameter \<open>send\<close>, which takes the state of the outside world and a
  request and returns a network error or a response, with the new state of the world; the
  parsing of the challenge header, the hash function, the text of a nonce count and the
  source of client nonces are parameters as well (\<open>digest_config\<close>). The cached challenge state is kept per
  authority, with its nonce count, a 32-bit counter.
\<close>

record challenge =
  realm :: string
  nonce :: string
  opaque :: string
  algorithm :: string
  qop :: string
  stale :: bool

record authorization =
  auth_username :: string
  auth_realm :: string
  auth_nonce :: string
  auth_uri :: string
  auth_opaque :: string
  auth_algorithm :: string
  auth_qop :: string
  auth_nc :: "32 word"
  auth_cnonce :: string
  auth_response :: string

record request =
  req_method :: string
  req_authority :: string
  req_uri :: string
  req_body :: string
  req_authorization :: "authorization option"

record response =
  resp_status :: int
  resp_challenge :: "string option"
  resp_body :: string

record digest_config =
  username :: string
  password :: string
  parse_challenge :: "string \<Rightarrow> challenge option"
  hash :: "string \<Rightarrow> string \<Rightarrow> string"
  nc_text :: "32 word \<Rightarrow> string"
  client_nonce :: "nat \<Rightarrow> string"

record digest_state =
  cache :: "string \<rightharpoonup> challenge \<times> 32 word"
  attempts :: nat

datatype outcome = Surfaced response | AuthenticationError | TransportError string

type_synonym 'w base_transport = "'w \<Rightarrow> request \<Rightarrow> (string + response) \<times> 'w"

definition response_digest ::
  "digest_config \<Rightarrow> challenge \<Rightarrow> 32 word \<Rightarrow> string \<Rightarrow> request \<Rightarrow> string"
where
  "response_digest D chal nc cn req =
     (let H = hash D (algorithm chal);
          ha1 = H (username D @ '':'' @ realm chal @ '':'' @ password D);
          ha2 = (if qop chal = ''auth-int''
                 then H (req_method req @ '':'' @ req_uri req @ '':'' @ H (req_body req))
                 else H (req_method req @ '':'' @ req_uri req))
      in H (ha1 @ '':'' @ nonce chal @ '':'' @ nc_text D nc @ '':'' @ cn @ '':'' @
            qop chal @ '':'' @ ha2))"

definition authorize ::
  "digest_config \<Rightarrow> challenge \<Rightarrow> 32 word \<Rightarrow> string \<Rightarrow> request \<Rightarrow> request"
where
  "authorize D chal nc cn req =
     req\<lparr>req_authorization :=
       Some \<lparr>auth_username = username D, auth_realm = realm chal, auth_nonce = nonce chal,
             auth_uri = req_uri req, auth_opaque = opaque chal,
             auth_algorithm = algorithm chal, auth_qop = qop chal, auth_nc = nc,
             auth_cnonce = cn, auth_response = response_digest D chal nc cn req\<rparr>\<rparr>"

definition offered_challenge :: "digest_config \<Rightarrow> response \<Rightarrow> challenge option" where
  "offered_challenge D resp =
     (if resp_status resp = 401
      then (case resp_challenge resp of None \<Rightarrow> None | Some h \<Rightarrow> parse_challenge D h)
      else None)"

definition fresh_challenge :: "digest_config \<Rightarrow> challenge \<Rightarrow> response \<Rightarrow> bool" where
  "fresh_challenge D cached resp =
     (case offered_challenge D resp of
        None \<Rightarrow> False
      | Some chal \<Rightarrow> nonce chal \<noteq> nonce cached \<or> stale chal)"

text \<open>
  Modelled from the spec: steps 2 to 4 of section 4.1, missing from the sources. The
  request is sent unauthenticated; unless the response is a 401 with a well-formed
  challenge the exchange fails with an authentication error; otherwise the response
  digest is computed, the request is resent exactly once, the challenge state is cached,
  and whatever the server answers to the resent request is the outcome.
\<close>

definition challenge_exchange ::
  "digest_config \<Rightarrow> 'w base_transport \<Rightarrow> digest_state \<Rightarrow> 'w \<Rightarrow> request \<Rightarrow>
     outcome \<times> digest_state \<times> 'w"
where
  "challenge_exchange D send st w req =
     (case send w (req\<lparr>req_authorization := None\<rparr>) of
        (Inl err, w0) \<Rightarrow> (TransportError err, st, w0)
      | (Inr resp0, w0) \<Rightarrow>
          (case offered_challenge D resp0 of
             None \<Rightarrow> (AuthenticationError, st, w0)
           | Some chal \<Rightarrow>
               let cn = client_nonce D (attempts st);
                   st1 = st\<lparr>cache := (cache st)(req_authority req \<mapsto> (chal, 1)),
                           attempts := attempts st + 1\<rparr>
               in (case send w0 (authorize D chal 1 cn req) of
                     (Inl err, w1) \<Rightarrow> (TransportError err, st1, w1)
                   | (Inr resp1, w1) \<Rightarrow> (Surfaced resp1, st1, w1))))"

text \<open>
  Modelled from the spec: step 1 of section 4.1, missing from the sources. With a cached
  challenge for the authority, the request is sent once with an incremented nonce count;
  if the server answers with a fresh challenge (another nonce, or \<open>stale\<close>), the cached
  challenge is dropped and the exchange of steps 2 to 4 follows. Without a cached
  challenge the exchange starts at once.
\<close>

definition RoundTrip ::
  "digest_config \<Rightarrow> 'w base_transport \<Rightarrow> digest_state \<Rightarrow> 'w \<Rightarrow> request \<Rightarrow>
     outcome \<times> digest_state \<times> 'w"
where
  "RoundTrip D send st w req =
     (case cache st (req_authority req) of
        None \<Rightarrow> challenge_exchange D send st w req
      | Some (chal, nc) \<Rightarrow>
          let cn = client_nonce D (attempts st);
              st1 = st\<lparr>cache := (cache st)(req_authority req \<mapsto> (chal, nc + 1)),
                      attempts := attempts st + 1\<rparr>
          in (case send w (authorize D chal (nc + 1) cn req) of
                (Inl err, w1) \<Rightarrow> (TransportError err, st1, w1)
              | (Inr resp, w1) \<Rightarrow>
                  if fresh_challenge D chal resp
                  then challenge_exchange D send
                         (st1\<lparr>cache := (cache st1)(req_authority req := None)\<rparr>) w1 req
                  else (Surfaced resp, st1, w1)))"

text \<open>
  For counting what the transport sends: \<open>logged send\<close> is the base transport \<open>send\<close>
  that also records each request with its result. The \<open>retries\<close> of a call are
  the requests it sends with credentials, its first request apart: every request sent
  again with an Authorization header counts, whichever challenge the header is built
  from. A server that \<open>always_rejects\<close> answers every request with a 401 and a
  well-formed challenge; it is \<open>always_fresh\<close> for a state of the transport when, in
  addition, each of its challenges is fresh with respect to the challenge cached for the
  authority of the request (another nonce, or \<open>stale\<close>). \<open>fresh_nonce_server\<close> is
  one that gives a new nonce each time; \<open>no_challenge_cached\<close> and
  \<open>old_challenge_cached\<close> are two states of the transport.
\<close>

type_synonym 'w traced = "(request \<times> (string + response)) list \<times> 'w"

definition logged :: "'w base_transport \<Rightarrow> 'w traced base_transport" where
  "logged send = (\<lambda>(trace, w) req.
     case send w req of (r, w') \<Rightarrow> (r, (trace @ [(req, r)], w')))"

definition authenticated :: "request \<times> (string + response) \<Rightarrow> bool" where
  "authenticated e \<longleftrightarrow> req_authorization (fst e) \<noteq> None"

definition retries :: "(request \<times> (string + response)) list \<Rightarrow> (request \<times> (string + response)) list"
where
  "retries trace = filter authenticated (tl trace)"

definition always_rejects :: "digest_config \<Rightarrow> 'w base_transport \<Rightarrow> bool" where
  "always_rejects D send \<longleftrightarrow>
     (\<forall>w req. \<exists>resp. fst (send w req) = Inr resp \<and> offered_challenge D resp \<noteq> None)"

definition always_fresh ::
  "digest_config \<Rightarrow> 'w base_transport \<Rightarrow> digest_state \<Rightarrow> request \<Rightarrow> bool"
where
  "always_fresh D send st req \<longleftrightarrow>
     always_rejects D send \<and>
     (\<forall>chal nc w r resp.
        cache st (req_authority req) = Some (chal, nc) \<and> fst (send w r) = Inr resp \<longrightarrow>
        fresh_challenge D chal resp)"

definition fresh_nonce_server :: "nat base_transport" where
  "fresh_nonce_server = (\<lambda>n req.
     (Inr \<lparr>resp_status = 401, resp_challenge = Some (CHR ''n'' # digits n), resp_body = []\<rparr>,
      Suc n))"

definition example_config :: digest_config where
  "example_config =
     \<lparr>username = ''admin'', password = ''secret'',
      parse_challenge = (\<lambda>h. Some \<lparr>realm = ''gateway'', nonce = h, opaque = '''',
                                   algorithm = ''MD5'', qop = ''auth'', stale = False\<rparr>),
      hash = (\<lambda>alg s. alg @ ''('' @ s @ '')''),
      nc_text = (\<lambda>nc. digits (unat nc)),
      client_nonce = (\<lambda>n. digits n)\<rparr>"

definition example_request :: request where
  "example_request =
     \<lparr>req_method = ''GET'', req_authority = ''192.168.33.2'',
      req_uri = ''/json/metering/derived'', req_body = '''', req_authorization = None\<rparr>"

definition no_challenge_cached :: digest_state where
  "no_challenge_cached = \<lparr>cache = Map.empty, attempts = 0\<rparr>"

definition old_challenge_cached :: digest_state where
  "old_challenge_cached =
     \<lparr>cache = [''192.168.33.2'' \<mapsto>
         (\<lparr>realm = ''gateway'', nonce = ''old'', opaque = [], algorithm = ''MD5'',
           qop = ''auth'', stale = False\<rparr>, 5)],
      attempts = 7\<rparr>"

section \<open>Properties of \<open>convertToOBIS\<close>\<close>

declare ParseUint_loop.simps(2) [simp del]

declare digits.simps [simp del]

lemma hex_table_eq:
  "hex_table =
     [(CHR ''0'', 0), (CHR ''1'', 1), (CHR ''2'', 2), (CHR ''3'', 3), (CHR ''4'', 4),
      (CHR ''5'', 5), (CHR ''6'', 6), (CHR ''7'', 7), (CHR ''8'', 8), (CHR ''9'', 9),
      (CHR ''a'', 10), (CHR ''b'', 11), (CHR ''c'', 12), (CHR ''d'', 13), (CHR ''e'', 14),
      (CHR ''f'', 15), (CHR ''A'', 10), (CHR ''B'', 11), (CHR ''C'', 12), (CHR ''D'', 13),
      (CHR ''E'', 14), (CHR ''F'', 15)]"
  by (simp add: hex_table_def upto.simps)

text \<open>
  The digit switch of \<open>ParseUint\<close>, followed by its test \<open>d >= base\<close>, accepts exactly
  the characters of the table, with the table's values: checked on all 256 bytes.
\<close>

lemma digit_of_hex_val:
  "(case digit_of c of None \<Rightarrow> None | Some d \<Rightarrow> if d \<ge> 16 then None else Some d) = hex_val c"
proof (cases c)
  case (Char b0 b1 b2 b3 b4 b5 b6 b7)
  show ?thesis
    unfolding Char digit_of_def lower_def hex_val_def hex_table_eq
    by (cases b0; cases b1; cases b2; cases b3; cases b4; cases b5; cases b6; cases b7; simp)
qed

lemma hex_val_range:
  assumes "hex_val c = Some v"
  shows "0 \<le> v \<and> v < 16"
proof -
  from assms have "(c, v) \<in> set hex_table"
    unfolding hex_val_def by (rule map_of_SomeD)
  then show ?thesis
    unfolding hex_table_eq by auto
qed

lemma hex_val_sign: "hex_val CHR ''+'' = None" "hex_val CHR ''-'' = None"
  by (simp_all add: hex_val_def hex_table_eq)

lemma hd_SplitN_dot_2: "hd (SplitN_dot_2 s) = segment s"
proof (cases "dropWhile (\<lambda>c. c \<noteq> CHR ''.'') s")
  case Nil
  then have tw: "takeWhile (\<lambda>c. c \<noteq> CHR ''.'') s = s"
    by (simp only: dropWhile_eq_Nil_conv takeWhile_eq_all_conv)
  show ?thesis unfolding SplitN_dot_2_def segment_def Nil tw by simp
next
  case (Cons a rest)
  show ?thesis unfolding SplitN_dot_2_def segment_def Cons by simp
qed

lemma ParseUint_loop_Cons:
  "ParseUint_loop n (ch # cs) =
     (case hex_val ch of
        None \<Rightarrow> Inl ErrSyntax
      | Some d \<Rightarrow>
          if n \<ge> maxUint64 div 16 + 1 then Inl ErrRange
          else
            let n' = (n * 16) mod 2 ^ 64;
                n1 = (n' + d) mod 2 ^ 64
            in if n1 < n' \<or> n1 > maxUint64 then Inl ErrRange
               else ParseUint_loop n1 cs)"
proof (cases "digit_of ch")
  case None
  with digit_of_hex_val [of ch] have "hex_val ch = None" by simp
  with None show ?thesis unfolding ParseUint_loop.simps(2) by simp
next
  case (Some d)
  show ?thesis
  proof (cases "d \<ge> 16")
    case True
    with Some digit_of_hex_val [of ch] have "hex_val ch = None" by simp
    with Some True show ?thesis unfolding ParseUint_loop.simps(2) by simp
  next
    case False
    with Some digit_of_hex_val [of ch] have "hex_val ch = Some d" by simp
    with Some False show ?thesis unfolding ParseUint_loop.simps(2) by simp
  qed
qed

lemma ParseUint_loop_syntax:
  "hex_val ch = None \<Longrightarrow> ParseUint_loop n (ch # cs) = Inl ErrSyntax"
  by (simp add: ParseUint_loop_Cons)

lemma ParseUint_loop_small:
  assumes "hex_val ch = Some d" and "0 \<le> n" and "n < 2 ^ 60"
  shows "ParseUint_loop n (ch # cs) = ParseUint_loop (n * 16 + d) cs"
proof -
  from assms(1) have d: "0 \<le> d" "d < 16" by (auto dest: hex_val_range)
  from assms(2,3) have n16: "(n * 16) mod 2 ^ 64 = n * 16" by simp
  from assms(2,3) d have n1: "(n * 16 + d) mod 2 ^ 64 = n * 16 + d" by simp
  from assms(3) have c: "\<not> n \<ge> maxUint64 div 16 + 1" by (simp add: maxUint64_def)
  from assms(2,3) d have r: "\<not> (n * 16 + d < n * 16 \<or> n * 16 + d > maxUint64)"
    by (simp add: maxUint64_def)
  show ?thesis
    unfolding ParseUint_loop_Cons Let_def using assms(1) c r n16 n1
    by simp
qed

lemma ParseUint_one:
  "ParseUint [b] = (case hex_val b of None \<Rightarrow> Inl ErrSyntax | Some y \<Rightarrow> Inr y)"
  by (simp add: ParseUint_def ParseUint_loop_small ParseUint_loop_syntax split: option.split)

lemma ParseUint_two:
  "ParseUint [a, b] =
     (case hex_val a of None \<Rightarrow> Inl ErrSyntax
      | Some x \<Rightarrow> (case hex_val b of None \<Rightarrow> Inl ErrSyntax | Some y \<Rightarrow> Inr (x * 16 + y)))"
proof (cases "hex_val a")
  case None
  then show ?thesis by (simp add: ParseUint_def ParseUint_loop_syntax)
next
  case a: (Some x)
  then have x: "0 \<le> x" "x < 16" by (auto dest: hex_val_range)
  then show ?thesis using a
    by (simp add: ParseUint_def ParseUint_loop_small ParseUint_loop_syntax split: option.split)
qed

lemma ParseInt_pair:
  "ParseInt [a, b] =
     (if is_sign a then
        (case hex_val b of
           None \<Rightarrow> Inl (NumError [a, b] ErrSyntax)
         | Some y \<Rightarrow> Inr (if a = CHR ''-'' then - y else y))
      else
        (case hex_val a of
           None \<Rightarrow> Inl (NumError [a, b] ErrSyntax)
         | Some x \<Rightarrow>
             (case hex_val b of
                None \<Rightarrow> Inl (NumError [a, b] ErrSyntax)
              | Some y \<Rightarrow> Inr (x * 16 + y))))"
proof (cases "is_sign a")
  case True
  show ?thesis
  proof (cases "hex_val b")
    case None
    with True show ?thesis
      by (simp add: ParseInt_def ParseUint_one is_sign_def)
  next
    case (Some y)
    then have "0 \<le> y" "y < 16" by (auto dest: hex_val_range)
    with True Some show ?thesis
      by (auto simp add: ParseInt_def ParseUint_one is_sign_def Let_def)
  qed
next
  case False
  show ?thesis
  proof (cases "hex_val a")
    case None
    with False show ?thesis
      by (simp add: ParseInt_def ParseUint_two is_sign_def)
  next
    case a: (Some x)
    then have x: "0 \<le> x" "x < 16" by (auto dest: hex_val_range)
    show ?thesis
    proof (cases "hex_val b")
      case None
      with False a show ?thesis
        by (simp add: ParseInt_def ParseUint_two is_sign_def)
    next
      case (Some y)
      then have "0 \<le> y" "y < 16" by (auto dest: hex_val_range)
      with False a x Some show ?thesis
        by (simp add: ParseInt_def ParseUint_two is_sign_def Let_def)
    qed
  qed
qed

lemma take2_drop: "k + 2 \<le> length s \<Longrightarrow> take 2 (drop k s) = [s ! k, s ! Suc k]"
  by (simp add: numeral_2_eq_2 take_Suc_conv_app_nth)

lemma hex_val_ascii_lower: "hex_val (ascii_lower c) = hex_val c"
proof (cases "map_of (zip ''ABCDEFGHIJKLMNOPQRSTUVWXYZ'' ''abcdefghijklmnopqrstuvwxyz'') c")
  case None
  then show ?thesis by (simp add: ascii_lower_def)
next
  case (Some l)
  then have "(c, l) \<in> set (zip ''ABCDEFGHIJKLMNOPQRSTUVWXYZ'' ''abcdefghijklmnopqrstuvwxyz'')"
    by (rule map_of_SomeD)
  then have "hex_val l = hex_val c"
    apply simp
    apply (elim disjE conjE; simp add: hex_val_def hex_table_eq)
    done
  with Some show ?thesis by (simp add: ascii_lower_def)
qed

lemma convertToOBIS_short:
  "length (segment name) \<noteq> 12 \<Longrightarrow> convertToOBIS name = Inl (UnexpectedLogicalName name)"
  by (simp add: convertToOBIS_def hd_SplitN_dot_2)

lemma convertToOBIS_12:
  assumes "length (segment name) = 12"
  shows "convertToOBIS name = pairs_result (take 6 (drop 4 (segment name)))"
proof -
  have e0: "take 2 (take 6 (drop 4 (segment name))) = take 2 (drop 4 (segment name))"
    by simp
  have e1: "take 2 (drop 2 (take 6 (drop 4 (segment name)))) = take 2 (drop 6 (segment name))"
    by (simp add: drop_take)
  have e2: "take 2 (drop 4 (take 6 (drop 4 (segment name)))) = take 2 (drop 8 (segment name))"
    by (simp add: drop_take)
  show ?thesis
    unfolding convertToOBIS_def hd_SplitN_dot_2 pairs_result_def Let_def e0 e1 e2
    using assms by simp
qed

lemma hex_value_pair:
  "hex_val a = Some x \<Longrightarrow> hex_val b = Some y \<Longrightarrow> hex_value [a, b] = x * 16 + y"
  by (simp add: hex_value_def)

lemma ParseInt_hex_pair:
  assumes "is_hex a" and "is_hex b"
  shows "ParseInt [a, b] = Inr (hex_value [a, b])"
proof -
  from assms obtain x y where xy: "hex_val a = Some x" "hex_val b = Some y"
    by (auto simp: is_hex_def)
  then have "\<not> is_sign a"
    using hex_val_sign by (auto simp: is_sign_def)
  with xy show ?thesis
    by (simp add: ParseInt_pair hex_value_pair)
qed

lemma pairs_result_hex:
  assumes "length six = 6" and "list_all is_hex six"
  shows "pairs_result six =
           Inr (Sprintf_d (hex_value (take 2 six)) @ ''.'' @
                Sprintf_d (hex_value (take 2 (drop 2 six))) @ ''.'' @
                Sprintf_d (hex_value (take 2 (drop 4 six))))"
proof -
  from assms(1) obtain a b c d e f where six: "six = [a, b, c, d, e, f]"
    by (auto simp: length_Suc_conv numeral_eq_Suc)
  with assms(2) show ?thesis
    by (simp add: pairs_result_def ParseInt_hex_pair)
qed

lemma same_up_to_case_hex_value:
  assumes "same_up_to_case s t"
  shows "map hex_val s = map hex_val t"
proof -
  have "map hex_val s = map hex_val (map ascii_lower s)"
    by (simp add: hex_val_ascii_lower)
  also have "\<dots> = map hex_val (map ascii_lower t)"
    using assms by (simp only: same_up_to_case_def)
  also have "\<dots> = map hex_val t"
    by (simp add: hex_val_ascii_lower)
  finally show ?thesis .
qed


lemma hex_value_map: "hex_value s = foldl (\<lambda>acc v. 16 * acc + the v) 0 (map hex_val s)"
  by (simp add: hex_value_def foldl_map)

lemma hex_value_cong:
  assumes "map hex_val s = map hex_val t"
  shows "hex_value (take n (drop k s)) = hex_value (take n (drop k t))"
proof -
  have "map hex_val (take n (drop k s)) = take n (drop k (map hex_val s))"
    by (simp only: take_map drop_map)
  also have "\<dots> = take n (drop k (map hex_val t))"
    by (simp only: assms)
  also have "\<dots> = map hex_val (take n (drop k t))"
    by (simp only: take_map drop_map)
  finally show ?thesis by (simp only: hex_value_map)
qed

lemma list_all_is_hex_map: "list_all is_hex s \<longleftrightarrow> None \<notin> set (map hex_val s)"
  by (induction s) (auto simp: is_hex_def)

lemma hex12_cong:
  assumes "map hex_val s = map hex_val t"
  shows "hex12 s \<longleftrightarrow> hex12 t"
proof -
  from assms have "length s = length t" by (rule map_eq_imp_length_eq)
  with assms show ?thesis by (simp add: hex12_def list_all_is_hex_map)
qed

lemma convertToOBIS_twelve_hex:
  assumes "hex12 (segment name)"
  shows "convertToOBIS name =
           Inr (Sprintf_d (hex_value (take 2 (drop 4 (segment name)))) @ ''.'' @
                Sprintf_d (hex_value (take 2 (drop 6 (segment name)))) @ ''.'' @
                Sprintf_d (hex_value (take 2 (drop 8 (segment name)))))"
proof -
  let ?six = "take 6 (drop 4 (segment name))"
  from assms have len: "length (segment name) = 12" and hex: "list_all is_hex (segment name)"
    by (simp_all add: hex12_def)
  from len have six: "length ?six = 6" by simp
  from hex have "list_all is_hex ?six"
    by (auto simp: list_all_iff dest: in_set_takeD in_set_dropD)
  with six have "pairs_result ?six =
           Inr (Sprintf_d (hex_value (take 2 ?six)) @ ''.'' @
                Sprintf_d (hex_value (take 2 (drop 2 ?six))) @ ''.'' @
                Sprintf_d (hex_value (take 2 (drop 4 ?six))))"
    by (rule pairs_result_hex)
  moreover have "take 2 ?six = take 2 (drop 4 (segment name))" by simp
  moreover have "take 2 (drop 2 ?six) = take 2 (drop 6 (segment name))" by (simp add: drop_take)
  moreover have "take 2 (drop 4 ?six) = take 2 (drop 8 (segment name))" by (simp add: drop_take)
  ultimately show ?thesis
    using len by (simp only: convertToOBIS_12)
qed

text \<open>\<open>digits\<close> prints a number in decimal: reading the digits back gives the number.\<close>

lemma decimal_value_snoc: "decimal_value (s @ [c]) = 10 * decimal_value s + (of_char c - 48)"
  by (simp add: decimal_value_def)

lemma decimal_value_digits: "decimal_value (digits n) = n"
proof (induction n rule: digits.induct)
  case (1 n)
  show ?case
  proof (cases "n < 10")
    case True
    then show ?thesis
      by (subst digits.simps) (simp add: decimal_value_def)
  next
    case False
    have "n mod 10 < 10" by simp
    then have "(48 + n mod 10) mod 256 = 48 + n mod 10" by simp
    with False "1.IH" show ?thesis
      by (subst digits.simps) (simp add: decimal_value_snoc)
  qed
qed


lemma is_digit_iff: "is_digit c \<longleftrightarrow> 48 \<le> (of_char c :: nat) \<and> (of_char c :: nat) \<le> 57"
proof (cases c)
  case (Char b0 b1 b2 b3 b4 b5 b6 b7)
  show ?thesis
    unfolding Char is_digit_def
    by (cases b0; cases b1; cases b2; cases b3; cases b4; cases b5; cases b6; cases b7; simp)
qed

lemma of_char_digit: "d < 10 \<Longrightarrow> (of_char (char_of (48 + d :: nat)) :: nat) = 48 + d"
  by simp

lemma is_digit_char_of: "d < 10 \<Longrightarrow> is_digit (char_of (48 + d :: nat))"
  by (simp add: is_digit_iff)

lemma char_of_zero_iff: "d < 10 \<Longrightarrow> char_of (48 + d :: nat) = CHR ''0'' \<longleftrightarrow> d = 0"
proof
  assume d: "d < 10" and "char_of (48 + d) = CHR ''0''"
  then have "(of_char (char_of (48 + d)) :: nat) = of_char CHR ''0''" by simp
  with d show "d = 0" by simp
next
  assume "d = 0"
  then have "(of_char (char_of (48 + d)) :: nat) = of_char CHR ''0''" by simp
  then show "char_of (48 + d) = CHR ''0''" by (simp only: of_char_eq_iff)
qed

lemma digits_nonempty: "digits n \<noteq> []"
  by (subst digits.simps) simp

lemma digits_all_digits: "list_all is_digit (digits n)"
proof (induction n rule: digits.induct)
  case (1 n)
  show ?case
  proof (cases "n < 10")
    case True
    then show ?thesis
      by (subst digits.simps) (simp add: is_digit_char_of)
  next
    case False
    have "n mod 10 < 10" by simp
    then have "is_digit (char_of (48 + n mod 10))" by (rule is_digit_char_of)
    with False "1.IH" show ?thesis
      by (subst digits.simps) simp
  qed
qed

lemma digits_leading_zero: "hd (digits n) = CHR ''0'' \<Longrightarrow> n = 0"
proof (induction n rule: digits.induct)
  case (1 n)
  show ?case
  proof (cases "n < 10")
    case True
    with "1.prems" have "char_of (48 + n) = CHR ''0''"
      by (subst (asm) digits.simps) simp
    with True show ?thesis by (simp add: char_of_zero_iff)
  next
    case False
    with "1.prems" have "hd (digits (n div 10)) = CHR ''0''"
      by (subst (asm) digits.simps) (simp add: digits_nonempty)
    with False "1.IH" have "n div 10 = 0" by simp
    with False show ?thesis by simp
  qed
qed

lemma digits_zero: "digits 0 = ''0''"
  by code_simp

lemma is_decimal_of_digits: "is_decimal_of (digits n) (int n)"
  unfolding is_decimal_of_def
  using digits_leading_zero [of n]
  by (auto simp: digits_nonempty digits_all_digits decimal_value_digits digits_zero)

lemma is_decimal_of_Sprintf_d: "0 \<le> i \<Longrightarrow> is_decimal_of (Sprintf_d i) i"
  using is_decimal_of_digits [of "nat i"] by (simp add: Sprintf_d_def)


lemma decimal_canonical:
  assumes "s \<noteq> []" and "list_all is_digit s" and "hd s = CHR ''0'' \<longrightarrow> s = ''0''"
  shows "s = digits (decimal_value s)"
  using assms
proof (induction s rule: rev_induct)
  case Nil
  then show ?case by simp
next
  case (snoc c xs)
  from snoc.prems(2) have c: "is_digit c" and xs: "list_all is_digit xs" by simp_all
  let ?d = "(of_char c :: nat) - 48"
  from c have d: "?d < 10" and cd: "48 + ?d = of_char c"
    by (auto simp: is_digit_iff)
  have ch: "char_of (48 + ?d) = c"
    by (simp only: cd char_of_char)
  show ?case
  proof (cases "xs = []")
    case True
    with d ch show ?thesis
      by (subst digits.simps) (simp add: decimal_value_def)
  next
    case False
    with snoc.prems(3) have h0: "hd xs \<noteq> CHR ''0''" by auto
    with h0 False xs snoc.IH have ih: "xs = digits (decimal_value xs)" by simp
    have nz: "decimal_value xs \<noteq> 0"
    proof
      assume "decimal_value xs = 0"
      with ih have "xs = ''0''" by (simp add: digits_zero)
      with h0 show False by simp
    qed
    let ?n = "decimal_value (xs @ [c])"
    have n: "?n = 10 * decimal_value xs + ?d" by (rule decimal_value_snoc)
    with nz have "\<not> ?n < 10" by simp
    moreover from n d have "?n div 10 = decimal_value xs" "?n mod 10 = ?d" by simp_all
    ultimately have "digits ?n = digits (decimal_value xs) @ [char_of (48 + ?d)]"
      by (subst digits.simps) simp
    with ih ch show ?thesis by simp
  qed
qed

lemma is_decimal_of_unique:
  assumes "is_decimal_of s i" and "is_decimal_of t i"
  shows "s = t"
proof -
  from assms(1) have "s = digits (decimal_value s)" "int (decimal_value s) = i"
    by (simp_all add: is_decimal_of_def decimal_canonical)
  moreover from assms(2) have "t = digits (decimal_value t)" "int (decimal_value t) = i"
    by (simp_all add: is_decimal_of_def decimal_canonical)
  ultimately show ?thesis by (metis of_nat_eq_iff)
qed

lemma hex_value_take2_nonneg:
  assumes "length s = 12" and "list_all is_hex s" and "k + 2 \<le> 12"
  shows "0 \<le> hex_value (take 2 (drop k s))"
proof -
  from assms(1,3) have t: "take 2 (drop k s) = [s ! k, s ! Suc k]"
    by (intro take2_drop) simp
  from assms have "is_hex (s ! k)" "is_hex (s ! Suc k)"
    by (simp_all add: list_all_length)
  then obtain x y where xy: "hex_val (s ! k) = Some x" "hex_val (s ! Suc k) = Some y"
    by (auto simp: is_hex_def)
  then have "0 \<le> x" "0 \<le> y" by (auto dest: hex_val_range)
  with xy show ?thesis by (simp add: t hex_value_pair)
qed

text \<open>
  C1: when the segment before the first \<open>'.'\<close> is exactly 12 hexadecimal characters,
  \<open>convertToOBIS\<close> succeeds and returns \<open>"C.D.E"\<close>, where C, D and E are the
  decimal numerals (digits only, no leading zero) of the values of the hexadecimal
  character pairs 4-6, 6-8 and 8-10 of the segment; and a name whose segment differs
  only in the case of its letters gets the same result. By \<open>is_decimal_of_unique\<close>
  there is one such string for each value.
\<close>

theorem convertToOBIS_hex12:
  assumes "hex12 (segment name)"
  shows "(\<exists>C D E.
            convertToOBIS name = Inr (C @ ''.'' @ D @ ''.'' @ E) \<and>
            is_decimal_of C (hex_value (take 2 (drop 4 (segment name)))) \<and>
            is_decimal_of D (hex_value (take 2 (drop 6 (segment name)))) \<and>
            is_decimal_of E (hex_value (take 2 (drop 8 (segment name))))) \<and>
         (\<forall>name'. same_up_to_case (segment name) (segment name') \<longrightarrow>
            convertToOBIS name' = convertToOBIS name)"
proof (intro conjI allI impI)
  from assms have len: "length (segment name) = 12" and hex: "list_all is_hex (segment name)"
    by (simp_all add: hex12_def)
  let ?c = "hex_value (take 2 (drop 4 (segment name)))"
  let ?d = "hex_value (take 2 (drop 6 (segment name)))"
  let ?e = "hex_value (take 2 (drop 8 (segment name)))"
  have "0 \<le> ?c" "0 \<le> ?d" "0 \<le> ?e"
    using len hex by (simp_all add: hex_value_take2_nonneg)
  then have "is_decimal_of (Sprintf_d ?c) ?c" "is_decimal_of (Sprintf_d ?d) ?d"
    "is_decimal_of (Sprintf_d ?e) ?e"
    by (simp_all only: is_decimal_of_Sprintf_d)
  moreover have "convertToOBIS name = Inr (Sprintf_d ?c @ ''.'' @ Sprintf_d ?d @ ''.'' @ Sprintf_d ?e)"
    using assms by (rule convertToOBIS_twelve_hex)
  ultimately show "\<exists>C D E.
            convertToOBIS name = Inr (C @ ''.'' @ D @ ''.'' @ E) \<and>
            is_decimal_of C ?c \<and> is_decimal_of D ?d \<and> is_decimal_of E ?e"
    by blast
next
  fix name'
  assume "same_up_to_case (segment name) (segment name')"
  then have m: "map hex_val (segment name) = map hex_val (segment name')"
    by (rule same_up_to_case_hex_value)
  from assms have h': "hex12 (segment name')"
    by (simp only: hex12_cong [OF m])
  note c = hex_value_cong [OF m, of 2 4] hex_value_cong [OF m, of 2 6]
    hex_value_cong [OF m, of 2 8]
  show "convertToOBIS name' = convertToOBIS name"
    unfolding convertToOBIS_twelve_hex [OF h'] convertToOBIS_twelve_hex [OF assms] c ..
qed

theorem convertToOBIS_hex12_witness:
  "hex12 (segment ''0100FF0aAbff.255'') \<and>
   hex_value (take 2 (drop 4 (segment ''0100FF0aAbff.255''))) = 255 \<and>
   hex_value (take 2 (drop 6 (segment ''0100FF0aAbff.255''))) = 10 \<and>
   hex_value (take 2 (drop 8 (segment ''0100FF0aAbff.255''))) = 171 \<and>
   is_decimal_of ''255'' 255 \<and> is_decimal_of ''10'' 10 \<and> is_decimal_of ''171'' 171 \<and>
   convertToOBIS ''0100FF0aAbff.255'' = Inr ''255.10.171'' \<and>
   same_up_to_case (segment ''0100FF0aAbff.255'') (segment ''0100ff0AaBFF'') \<and>
   convertToOBIS ''0100ff0AaBFF'' = Inr ''255.10.171''"
proof -
  have h: "hex12 (segment ''0100FF0aAbff.255'')"
    by (simp add: hex12_def segment_def is_hex_def hex_val_def hex_table_eq)
  have v: "hex_value (take 2 (drop 4 (segment ''0100FF0aAbff.255''))) = 255"
    "hex_value (take 2 (drop 6 (segment ''0100FF0aAbff.255''))) = 10"
    "hex_value (take 2 (drop 8 (segment ''0100FF0aAbff.255''))) = 171"
    by (simp_all add: segment_def hex_value_def hex_val_def hex_table_eq)
  have d: "is_decimal_of ''255'' 255" "is_decimal_of ''10'' 10" "is_decimal_of ''171'' 171"
    by (simp_all add: is_decimal_of_def is_digit_def decimal_value_def)
  have s: "same_up_to_case (segment ''0100FF0aAbff.255'') (segment ''0100ff0AaBFF'')"
    by (simp add: same_up_to_case_def segment_def ascii_lower_def)
  from convertToOBIS_hex12 [OF h] obtain C D E where
    r: "convertToOBIS ''0100FF0aAbff.255'' = Inr (C @ ''.'' @ D @ ''.'' @ E)"
    and "is_decimal_of C 255" "is_decimal_of D 10" "is_decimal_of E 171"
    and i: "\<forall>name'. same_up_to_case (segment ''0100FF0aAbff.255'') (segment name') \<longrightarrow>
            convertToOBIS name' = convertToOBIS ''0100FF0aAbff.255''"
    unfolding v by blast
  with d have "C = ''255''" "D = ''10''" "E = ''171''"
    by (auto intro: is_decimal_of_unique)
  with r have 1: "convertToOBIS ''0100FF0aAbff.255'' = Inr ''255.10.171''" by simp
  from i s have "convertToOBIS ''0100ff0AaBFF'' = convertToOBIS ''0100FF0aAbff.255''" by blast
  with h v d s 1 show ?thesis by simp
qed

text \<open>
  C8: \<open>convertToOBIS\<close> reads only the characters 4 to 9 of the segment before the
  first \<open>'.'\<close>. Two logical names whose segments both have length 12 and agree on the
  characters 4 to 9 get the same result: the same OBIS string, or the same error.
\<close>

theorem convertToOBIS_reads_4_to_9:
  assumes "length (segment a) = 12" and "length (segment b) = 12"
    and "take 6 (drop 4 (segment a)) = take 6 (drop 4 (segment b))"
  shows "convertToOBIS a = convertToOBIS b"
  using assms by (simp add: convertToOBIS_12)

theorem convertToOBIS_reads_4_to_9_witness:
  "length (segment ''0100010800ff.255'') = 12 \<and> length (segment ''ZZZZ010800ZZ'') = 12 \<and>
   take 6 (drop 4 (segment ''0100010800ff.255'')) = take 6 (drop 4 (segment ''ZZZZ010800ZZ'')) \<and>
   convertToOBIS ''0100010800ff.255'' = convertToOBIS ''ZZZZ010800ZZ''"
  using convertToOBIS_reads_4_to_9 [of "''0100010800ff.255''" "''ZZZZ010800ZZ''"]
  by (simp add: segment_def)

lemma ParseInt_pair_reject_first:
  "\<not> (is_hex a \<or> is_sign a) \<Longrightarrow> ParseInt [a, b] = Inl (NumError [a, b] ErrSyntax)"
  by (simp add: ParseInt_pair is_hex_def)

lemma ParseInt_pair_reject_second:
  "\<not> is_hex b \<Longrightarrow> ParseInt [a, b] = Inl (NumError [a, b] ErrSyntax)"
  by (simp add: ParseInt_pair is_hex_def split: option.split)

lemma pairs_result_reject:
  assumes "\<not> (is_hex a \<or> is_sign a) \<or> \<not> is_hex b \<or>
           \<not> (is_hex c \<or> is_sign c) \<or> \<not> is_hex d \<or>
           \<not> (is_hex e \<or> is_sign e) \<or> \<not> is_hex f"
  shows "\<exists>err. pairs_result [a, b, c, d, e, f] = Inl err"
proof -
  have "\<exists>err. ParseInt [a, b] = Inl err \<or> ParseInt [c, d] = Inl err \<or> ParseInt [e, f] = Inl err"
    using assms ParseInt_pair_reject_first ParseInt_pair_reject_second by blast
  then show ?thesis
    by (auto simp: pairs_result_def split: sum.splits)
qed

lemma take6_drop4:
  assumes "length s = 12"
  shows "take 6 (drop 4 s) = [s ! 4, s ! 5, s ! 6, s ! 7, s ! 8, s ! 9]"
proof -
  from assms obtain a b c d e f g h i j k l where "s = [a, b, c, d, e, f, g, h, i, j, k, l]"
    by (auto simp: length_Suc_conv numeral_eq_Suc)
  then show ?thesis by simp
qed

lemma convertToOBIS_malformed:
  assumes "malformed (segment name)"
  shows "\<exists>err. convertToOBIS name = Inl err"
proof (cases "length (segment name) = 12")
  case False
  then show ?thesis by (simp add: convertToOBIS_short)
next
  case True
  with assms show ?thesis
    unfolding convertToOBIS_12 [OF True] take6_drop4 [OF True] malformed_def
    by (intro pairs_result_reject) simp
qed

section \<open>Properties of \<open>GetMeterValues\<close>\<close>

lemma GetMeterValues_item_eq:
  "GetMeterValues_item F vals item =
     (if survives F item then vals(obis_key item \<mapsto> converted F item) else vals)"
  by (cases "convertToOBIS (LogicalName item)"; cases "ParseFloat F (Value item)")
     (auto simp: GetMeterValues_item_def survives_def obis_key_def converted_def known_unit_def
        Let_def)

lemma GetMeterValues_item_skip:
  "\<not> survives F item \<Longrightarrow> GetMeterValues_item F vals item = vals"
  by (simp add: GetMeterValues_item_eq)

lemma foldl_skip:
  assumes "\<not> survives F item"
  shows "foldl (GetMeterValues_item F) vals (xs @ item # ys) =
         foldl (GetMeterValues_item F) vals (xs @ ys)"
  using assms by (simp add: GetMeterValues_item_skip)

lemma foldl_filter_survives:
  "foldl (GetMeterValues_item F) vals (filter (survives F) items) =
   foldl (GetMeterValues_item F) vals items"
  by (induction items arbitrary: vals) (simp_all add: GetMeterValues_item_skip)

lemma foldl_lookup:
  "foldl (GetMeterValues_item F) vals items k =
     (case latest F items k of None \<Rightarrow> vals k | Some v \<Rightarrow> Some v)"
proof (induction items arbitrary: vals)
  case Nil
  show ?case by (simp add: latest_def)
next
  case (Cons item items)
  show ?case
    unfolding foldl_Cons Cons.IH
    by (auto simp: latest_def GetMeterValues_item_eq split: list.splits)
qed

lemma foldl_empty_lookup:
  "foldl (GetMeterValues_item F) Map.empty items = latest F items"
  by (rule ext) (simp add: foldl_lookup split: option.split)

lemma latest_empty_iff: "latest F items = Map.empty \<longleftrightarrow> \<not> list_ex (survives F) items"
proof
  assume e: "latest F items = Map.empty"
  show "\<not> list_ex (survives F) items"
  proof
    assume "list_ex (survives F) items"
    then obtain item where i: "item \<in> set items" "survives F item"
      by (auto simp: list_ex_iff)
    then have "filter (\<lambda>j. survives F j \<and> obis_key j = obis_key item) items \<noteq> []"
      by (auto simp: filter_empty_conv)
    then have "latest F items (obis_key item) \<noteq> None"
      by (simp add: latest_def split: list.splits)
    with e show False by simp
  qed
next
  assume "\<not> list_ex (survives F) items"
  then have "\<And>k. filter (\<lambda>j. survives F j \<and> obis_key j = k) items = []"
    by (auto simp: filter_empty_conv list_ex_iff)
  then show "latest F items = Map.empty"
    by (intro ext) (simp add: latest_def)
qed

lemma GetMeterValues_fetched:
  assumes "fetched G c reading"
  shows "GetMeterValues F G c =
           (if list_ex (survives F) (Values reading) then Inr (latest F (Values reading))
            else Inl NoValidMeterValues)"
  using assms
  by (simp add: GetMeterValues_def fetched_def Let_def foldl_empty_lookup latest_empty_iff)

lemma latest_value:
  assumes "latest F items k = Some v"
  shows "\<exists>item \<in> set items. survives F item \<and> obis_key item = k \<and> v = converted F item"
proof -
  let ?xs = "filter (\<lambda>item. survives F item \<and> obis_key item = k) items"
  from assms have ne: "?xs \<noteq> []" and v: "v = converted F (last ?xs)"
    by (auto simp: latest_def split: list.splits)
  from ne have "last ?xs \<in> set ?xs" by (rule last_in_set)
  with v show ?thesis by auto
qed

lemma latest_alt:
  "latest F items k =
     (if filter (\<lambda>item. survives F item \<and> obis_key item = k) items = [] then None
      else Some (converted F (last (filter (\<lambda>item. survives F item \<and> obis_key item = k) items))))"
  by (simp add: latest_def split: list.splits)

lemma latest_last:
  assumes "survives F item"
    and "\<forall>j \<in> set later. survives F j \<longrightarrow> obis_key j \<noteq> obis_key item"
  shows "latest F (earlier @ item # later) (obis_key item) = Some (converted F item)"
proof -
  from assms(2)
  have "filter (\<lambda>j. survives F j \<and> obis_key j = obis_key item) later = []"
    by (auto simp: filter_empty_conv)
  with assms(1) show ?thesis
    by (simp add: latest_alt)
qed

lemma latest_filter:
  assumes "\<And>item. survives F item \<Longrightarrow> P item"
  shows "latest F (filter P items) = latest F items"
proof -
  have "\<And>k. filter (\<lambda>item. survives F item \<and> obis_key item = k) (filter P items) =
            filter (\<lambda>item. survives F item \<and> obis_key item = k) items"
    using assms by (auto intro: filter_cong)
  then show ?thesis
    by (intro ext) (simp only: latest_def)
qed

lemma list_ex_filter:
  assumes "\<And>item. survives F item \<Longrightarrow> P item"
  shows "list_ex (survives F) (filter P items) \<longleftrightarrow> list_ex (survives F) items"
  using assms by (auto simp: list_ex_iff)

lemma GetMeterValues_filter:
  assumes "fetched G c reading" and "fetched G' c' reading'"
    and "\<And>item. survives F item \<Longrightarrow> P item"
    and "filter P (Values reading) = filter P (Values reading')"
  shows "GetMeterValues F G c = GetMeterValues F G' c'"
proof -
  have "list_ex (survives F) (Values reading) = list_ex (survives F) (Values reading')"
    using list_ex_filter [of F P "Values reading", OF assms(3)]
      list_ex_filter [of F P "Values reading'", OF assms(3)] assms(4) by simp
  moreover
  have "latest F (Values reading) = latest F (Values reading')"
    using latest_filter [of F P "Values reading", OF assms(3)]
      latest_filter [of F P "Values reading'", OF assms(3)] assms(4) by simp
  ultimately show ?thesis
    by (simp add: GetMeterValues_fetched [OF assms(1)] GetMeterValues_fetched [OF assms(2)])
qed

lemma fetched_serving: "fetched (serving reading) example_client reading"
  by (simp add: fetched_def serving_def getJSON_def example_client_def)

lemma Values_document: "Values (document items) = items"
  by (simp add: document_def)

lemma example_keys:
  "convertToOBIS (LogicalName item_energy) = Inr ''1.8.0''"
  "convertToOBIS (LogicalName item_power) = Inr ''16.7.0''"
  "convertToOBIS (LogicalName item_energy_again) = Inr ''1.8.0''"
  "convertToOBIS (LogicalName item_unknown_unit) = Inr ''32.7.0''"
  "convertToOBIS (LogicalName item_short_name) = Inl (UnexpectedLogicalName ''01000108.255'')"
  by code_simp+

lemma example_values:
  "ParseFloat exact_ops (Value item_energy) = Inr 150"
  "ParseFloat exact_ops (Value item_power) = Inr 2345"
  "ParseFloat exact_ops (Value item_energy_again) = Inr 2345"
  "ParseFloat exact_ops (Value item_unknown_unit) = Inr 230"
  "ParseFloat exact_ops (Value item_short_name) = Inr 7"
  by (simp_all add: exact_ops_def parse_digits_def decimal_value_def item_energy_def item_power_def
        item_energy_again_def item_unknown_unit_def item_short_name_def)

lemma example_survives:
  "survives exact_ops item_energy"
  "survives exact_ops item_power"
  "survives exact_ops item_energy_again"
  "\<not> survives exact_ops item_unknown_unit"
  "\<not> survives exact_ops item_short_name"
  by (simp_all add: survives_def example_keys example_values known_unit_def)
     (simp_all add: item_energy_def item_power_def item_energy_again_def item_unknown_unit_def)

lemma example_converted:
  "converted exact_ops item_energy = 15"
  "converted exact_ops item_power = 2345"
  "converted exact_ops item_energy_again = 2345"
  by (simp_all add: converted_def example_values)
     (simp_all add: exact_ops_def item_energy_def item_power_def item_energy_again_def)

text \<open>
  C4: an item whose unit code is outside 27, 30, 33, 35, 44 leaves the result mapping
  as it is and produces no error: the result of \<open>GetMeterValues\<close> is the same for any
  two documents with the same items of known unit code, and every entry of the result
  comes from an item with a known unit code.
\<close>

theorem GetMeterValues_unknown_unit:
  assumes "fetched G c reading"
  shows "(\<forall>item vals. \<not> known_unit (Unit item) \<longrightarrow> GetMeterValues_item F vals item = vals) \<and>
         (\<forall>G' reading'. fetched G' c reading' \<and>
              filter (\<lambda>item. known_unit (Unit item)) (Values reading') =
              filter (\<lambda>item. known_unit (Unit item)) (Values reading) \<longrightarrow>
              GetMeterValues F G' c = GetMeterValues F G c) \<and>
         (\<forall>m k v. GetMeterValues F G c = Inr m \<and> m k = Some v \<longrightarrow>
              (\<exists>item \<in> set (Values reading).
                  known_unit (Unit item) \<and> convertToOBIS (LogicalName item) = Inr k))"
proof (intro conjI allI impI)
  fix item :: MeterValue and vals :: "string \<rightharpoonup> 'a"
  assume "\<not> known_unit (Unit item)"
  then show "GetMeterValues_item F vals item = vals"
    by (simp add: GetMeterValues_item_skip survives_def)
next
  fix G' reading'
  assume a: "fetched G' c reading' \<and>
              filter (\<lambda>item. known_unit (Unit item)) (Values reading') =
              filter (\<lambda>item. known_unit (Unit item)) (Values reading)"
  show "GetMeterValues F G' c = GetMeterValues F G c"
    by (rule GetMeterValues_filter [where P = "\<lambda>item. known_unit (Unit item)"
            and reading = reading' and reading' = reading])
       (use a assms in \<open>simp_all add: survives_def\<close>)
next
  fix m k v
  assume a: "GetMeterValues F G c = Inr m \<and> m k = Some v"
  then have "latest F (Values reading) k = Some v"
    by (auto simp: GetMeterValues_fetched [OF assms] split: if_splits)
  from latest_value [OF this]
  obtain item where "item \<in> set (Values reading)" "survives F item" "obis_key item = k"
    by auto
  then show "\<exists>item \<in> set (Values reading).
                  known_unit (Unit item) \<and> convertToOBIS (LogicalName item) = Inr k"
    by (cases "convertToOBIS (LogicalName item)") (auto simp: survives_def obis_key_def)
qed


theorem GetMeterValues_unknown_unit_witness:
  "fetched (serving (document [item_energy, item_unknown_unit])) example_client
     (document [item_energy, item_unknown_unit]) \<and>
   \<not> known_unit (Unit item_unknown_unit) \<and>
   GetMeterValues_item exact_ops [''1.8.0'' \<mapsto> 15] item_unknown_unit = [''1.8.0'' \<mapsto> 15] \<and>
   GetMeterValues exact_ops (serving (document [item_energy])) example_client =
   GetMeterValues exact_ops (serving (document [item_energy, item_unknown_unit])) example_client \<and>
   GetMeterValues exact_ops (serving (document [item_energy, item_unknown_unit])) example_client =
     Inr [''1.8.0'' \<mapsto> 15]"
proof -
  let ?G = "serving (document [item_energy, item_unknown_unit])"
  let ?G' = "serving (document [item_energy])"
  have f: "fetched ?G example_client (document [item_energy, item_unknown_unit])"
    by (rule fetched_serving)
  have f': "fetched ?G' example_client (document [item_energy])"
    by (rule fetched_serving)
  have u: "\<not> known_unit (Unit item_unknown_unit)" "known_unit (Unit item_energy)"
    by (simp_all add: known_unit_def item_unknown_unit_def item_energy_def)
  note t = GetMeterValues_unknown_unit [OF f, of exact_ops]
  from t u have 1: "GetMeterValues_item exact_ops [''1.8.0'' \<mapsto> 15] item_unknown_unit =
      [''1.8.0'' \<mapsto> 15]"
    by blast
  from t have "fetched ?G' example_client (document [item_energy]) \<and>
      filter (\<lambda>item. known_unit (Unit item)) (Values (document [item_energy])) =
      filter (\<lambda>item. known_unit (Unit item)) (Values (document [item_energy, item_unknown_unit]))
      \<longrightarrow> GetMeterValues exact_ops ?G' example_client = GetMeterValues exact_ops ?G example_client"
    by blast
  with f' u have 2: "GetMeterValues exact_ops ?G' example_client =
      GetMeterValues exact_ops ?G example_client"
    by (simp add: Values_document)
  have "latest exact_ops [item_energy] = [''1.8.0'' \<mapsto> 15]"
    by (intro ext)
       (simp add: latest_alt example_survives obis_key_def example_keys example_converted)
  then have 3: "GetMeterValues exact_ops ?G' example_client = Inr [''1.8.0'' \<mapsto> 15]"
    by (simp add: GetMeterValues_fetched [OF f'] Values_document example_survives)
  from f u 1 2 3 show ?thesis by simp
qed

text \<open>
  C5: when the meter ID is set and the fetch and the decoding of the document succeed,
  \<open>GetMeterValues\<close> fails with "no valid meter values found" exactly when no item
  survives, and otherwise returns a non-empty mapping; a document whose items all have
  unknown unit codes gives that error, and the result is never an empty mapping.
\<close>

theorem GetMeterValues_no_data_iff:
  assumes "fetched G c reading"
  shows "(GetMeterValues F G c = Inl NoValidMeterValues \<longleftrightarrow>
            \<not> list_ex (survives F) (Values reading)) \<and>
         (list_ex (survives F) (Values reading) \<longrightarrow>
            (\<exists>m. GetMeterValues F G c = Inr m \<and> m \<noteq> Map.empty)) \<and>
         (list_all (\<lambda>item. \<not> known_unit (Unit item)) (Values reading) \<longrightarrow>
            GetMeterValues F G c = Inl NoValidMeterValues) \<and>
         GetMeterValues F G c \<noteq> Inr Map.empty"
proof -
  have a: "list_all (\<lambda>item. \<not> known_unit (Unit item)) (Values reading) \<Longrightarrow>
           \<not> list_ex (survives F) (Values reading)"
    by (auto simp: list_all_iff list_ex_iff survives_def)
  show ?thesis
    unfolding GetMeterValues_fetched [OF assms]
    using a by (auto simp: latest_empty_iff)
qed

theorem GetMeterValues_no_data_iff_witness:
  "fetched (serving (document [item_unknown_unit, item_unknown_unit])) example_client
     (document [item_unknown_unit, item_unknown_unit]) \<and>
   GetMeterValues exact_ops (serving (document [item_unknown_unit, item_unknown_unit]))
     example_client = Inl NoValidMeterValues \<and>
   fetched (serving (document [item_short_name, item_power])) example_client
     (document [item_short_name, item_power]) \<and>
   list_ex (survives exact_ops) (Values (document [item_short_name, item_power])) \<and>
   (\<exists>m. GetMeterValues exact_ops (serving (document [item_short_name, item_power]))
     example_client = Inr m \<and> m \<noteq> Map.empty)"
proof -
  have f1: "fetched (serving (document [item_unknown_unit, item_unknown_unit])) example_client
     (document [item_unknown_unit, item_unknown_unit])"
    by (rule fetched_serving)
  have f2: "fetched (serving (document [item_short_name, item_power])) example_client
     (document [item_short_name, item_power])"
    by (rule fetched_serving)
  have u: "list_all (\<lambda>item. \<not> known_unit (Unit item))
      (Values (document [item_unknown_unit, item_unknown_unit]))"
    by (simp add: Values_document known_unit_def item_unknown_unit_def)
  have s: "list_ex (survives exact_ops) (Values (document [item_short_name, item_power]))"
    by (simp add: Values_document example_survives)
  from GetMeterValues_no_data_iff [OF f1, of exact_ops] u
  have 1: "GetMeterValues exact_ops (serving (document [item_unknown_unit, item_unknown_unit]))
     example_client = Inl NoValidMeterValues"
    by blast
  from GetMeterValues_no_data_iff [OF f2, of exact_ops] s
  have 2: "\<exists>m. GetMeterValues exact_ops (serving (document [item_short_name, item_power]))
     example_client = Inr m \<and> m \<noteq> Map.empty"
    by blast
  from f1 f2 s 1 2 show ?thesis by blast
qed

text \<open>
  C9, as amended: when several items of a document convert to the same OBIS key, have
  a known unit code and a value that parses, the result of \<open>GetMeterValues\<close> is a
  mapping that holds, at that key, the converted value of the last of them in document
  order.
\<close>

theorem GetMeterValues_last_wins:
  assumes "fetched G c reading"
    and "Values reading = earlier @ item # later"
    and "survives F item"
    and "convertToOBIS (LogicalName item) = Inr k"
    and "\<forall>j \<in> set later. survives F j \<longrightarrow> convertToOBIS (LogicalName j) \<noteq> Inr k"
  shows "\<exists>m. GetMeterValues F G c = Inr m \<and> m k = Some (converted F item)"
proof -
  from assms(4) have k: "obis_key item = k" by (simp add: obis_key_def)
  have "\<forall>j \<in> set later. survives F j \<longrightarrow> obis_key j \<noteq> obis_key item"
  proof (intro ballI impI)
    fix j assume j: "j \<in> set later" "survives F j"
    with assms(5) have n: "convertToOBIS (LogicalName j) \<noteq> Inr k" by blast
    from j(2) obtain k' where k': "convertToOBIS (LogicalName j) = Inr k'"
      by (cases "convertToOBIS (LogicalName j)") (auto simp: survives_def)
    from k' have "obis_key j = k'" by (simp add: obis_key_def)
    moreover from n k' have "k' \<noteq> k" by simp
    ultimately show "obis_key j \<noteq> obis_key item"
      by (simp add: k)
  qed
  with assms(3) have "latest F (earlier @ item # later) (obis_key item) = Some (converted F item)"
    by (rule latest_last)
  moreover from assms(2,3) have "list_ex (survives F) (Values reading)"
    by (auto simp: list_ex_iff)
  ultimately show ?thesis
    by (simp add: GetMeterValues_fetched [OF assms(1)] assms(2) k)
qed

theorem GetMeterValues_last_wins_witness:
  "fetched (serving (document [item_energy, item_power, item_energy_again, item_unknown_unit]))
     example_client (document [item_energy, item_power, item_energy_again, item_unknown_unit]) \<and>
   survives exact_ops item_energy \<and> convertToOBIS (LogicalName item_energy) = Inr ''1.8.0'' \<and>
   survives exact_ops item_energy_again \<and>
   convertToOBIS (LogicalName item_energy_again) = Inr ''1.8.0'' \<and>
   (\<exists>m. GetMeterValues exact_ops
          (serving (document [item_energy, item_power, item_energy_again, item_unknown_unit]))
          example_client = Inr m \<and> m ''1.8.0'' = Some 2345)"
proof -
  let ?d = "document [item_energy, item_power, item_energy_again, item_unknown_unit]"
  have f: "fetched (serving ?d) example_client ?d"
    by (rule fetched_serving)
  have v: "Values ?d = [item_energy, item_power] @ item_energy_again # [item_unknown_unit]"
    by (simp add: Values_document)
  have l: "\<forall>j \<in> set [item_unknown_unit].
      survives exact_ops j \<longrightarrow> convertToOBIS (LogicalName j) \<noteq> Inr ''1.8.0''"
    by (simp add: example_survives)
  from GetMeterValues_last_wins [OF f v example_survives(3) example_keys(3) l]
  show ?thesis
    using f by (simp add: example_survives example_keys example_converted)
qed

text \<open>
  An item whose value does not parse is passed over, also when it is the last one with
  its key and a known unit code: the mapping then keeps the value of the earlier item.
\<close>

theorem GetMeterValues_unparsable_last:
  "convertToOBIS (LogicalName item_energy) = Inr ''1.8.0'' \<and> known_unit (Unit item_energy) \<and>
   convertToOBIS (LogicalName item_bad_value) = Inr ''1.8.0'' \<and>
   known_unit (Unit item_bad_value) \<and>
   ParseFloat exact_ops (Value item_bad_value) = Inl (NumError ''abc'' ErrSyntax) \<and>
   converted exact_ops item_energy = 15 \<and>
   GetMeterValues exact_ops (serving (document [item_energy, item_bad_value])) example_client =
     Inr [''1.8.0'' \<mapsto> 15]"
proof -
  have k: "convertToOBIS (LogicalName item_bad_value) = Inr ''1.8.0''"
    by code_simp
  have u: "known_unit (Unit item_energy)" "known_unit (Unit item_bad_value)"
    by (simp_all add: known_unit_def item_energy_def item_bad_value_def)
  have p: "ParseFloat exact_ops (Value item_bad_value) = Inl (NumError ''abc'' ErrSyntax)"
    by (simp add: exact_ops_def parse_digits_def item_bad_value_def)
  then have n: "\<not> survives exact_ops item_bad_value"
    by (simp add: survives_def)
  have "latest exact_ops [item_energy, item_bad_value] = [''1.8.0'' \<mapsto> 15]"
    by (intro ext)
       (simp add: latest_alt example_survives n obis_key_def example_keys example_converted)
  then have "GetMeterValues exact_ops (serving (document [item_energy, item_bad_value]))
      example_client = Inr [''1.8.0'' \<mapsto> 15]"
    by (simp add: GetMeterValues_fetched [OF fetched_serving] Values_document example_survives)
  with k u p example_keys(1) example_converted(1) show ?thesis by simp
qed




text \<open>
  C2, as amended: \<open>convertToOBIS\<close> returns an error for every logical name whose
  segment before the first \<open>'.'\<close> is not exactly 12 characters long, or has among its
  characters 4 to 9 one that is not hexadecimal (a \<open>'+'\<close> or \<open>'-'\<close> in the first place of
  a pair apart). \<open>GetMeterValues\<close> skips such an item: the loop leaves the mapping as it
  is, and the result is the one of the document without the item.
\<close>

theorem convertToOBIS_rejects_malformed:
  assumes "malformed (segment (LogicalName item))"
  shows "(\<exists>err. convertToOBIS (LogicalName item) = Inl err) \<and>
         (\<forall>vals. GetMeterValues_item F vals item = vals) \<and>
         (\<forall>G G' c reading reading' xs ys.
            fetched G c reading \<and> Values reading = xs @ item # ys \<and>
            fetched G' c reading' \<and> Values reading' = xs @ ys \<longrightarrow>
            GetMeterValues F G c = GetMeterValues F G' c)"
proof -
  from assms obtain err where err: "convertToOBIS (LogicalName item) = Inl err"
    using convertToOBIS_malformed by blast
  then have n: "\<not> survives F item"
    by (simp add: survives_def)
  have "GetMeterValues F G c = GetMeterValues F G' c"
    if "fetched G c reading" "Values reading = xs @ item # ys"
       "fetched G' c reading'" "Values reading' = xs @ ys"
    for G G' c reading reading' xs ys
  proof (rule GetMeterValues_filter [where P = "survives F" and reading = reading
        and reading' = reading'])
    show "filter (survives F) (Values reading) = filter (survives F) (Values reading')"
      using that(2,4) n by simp
  qed (use that in simp_all)
  with err n show ?thesis
    by (auto simp: GetMeterValues_item_skip)
qed

theorem convertToOBIS_rejects_malformed_witness:
  "malformed (segment (LogicalName item_short_name)) \<and>
   convertToOBIS (LogicalName item_short_name) = Inl (UnexpectedLogicalName ''01000108.255'') \<and>
   malformed (segment ''0100g10800ff'') \<and>
   convertToOBIS ''0100g10800ff'' = Inl (NumError ''g1'' ErrSyntax) \<and>
   GetMeterValues exact_ops (serving (document [item_short_name, item_power])) example_client =
   GetMeterValues exact_ops (serving (document [item_power])) example_client"
proof -
  have m: "malformed (segment (LogicalName item_short_name))"
    by (simp add: malformed_def segment_def item_short_name_def)
  have m': "malformed (segment ''0100g10800ff'')"
    by (simp add: malformed_def segment_def is_hex_def is_sign_def hex_val_def hex_table_eq)
  have c: "convertToOBIS ''0100g10800ff'' = Inl (NumError ''g1'' ErrSyntax)"
    by code_simp
  have v: "Values (document [item_short_name, item_power]) = [] @ item_short_name # [item_power]"
    "Values (document [item_power]) = [] @ [item_power]"
    by (simp_all add: Values_document)
  from convertToOBIS_rejects_malformed [OF m, of exact_ops]
    fetched_serving [of "document [item_short_name, item_power]"]
    fetched_serving [of "document [item_power]"] v
  have "GetMeterValues exact_ops (serving (document [item_short_name, item_power]))
          example_client =
        GetMeterValues exact_ops (serving (document [item_power])) example_client"
    by blast
  with m m' c example_keys(5) show ?thesis by simp
qed

text \<open>
  Characters outside the places 4 to 9 are not examined: a name whose segment is not
  hexadecimal is accepted.
\<close>

theorem convertToOBIS_accepts_non_hex:
  "\<not> hex12 (segment ''ZZZZ010800ZZ'') \<and> convertToOBIS ''ZZZZ010800ZZ'' = Inr ''1.8.0''"
proof -
  have "\<not> hex12 (segment ''ZZZZ010800ZZ'')"
    by (simp add: hex12_def segment_def is_hex_def hex_val_def hex_table_eq)
  moreover have "convertToOBIS ''ZZZZ010800ZZ'' = Inr ''1.8.0''"
    by code_simp
  ultimately show ?thesis ..
qed


text \<open>
  \<open>strconv.ParseInt\<close> takes a leading sign, so a sign in the first place of a pair is
  accepted as well.
\<close>

lemma convertToOBIS_sign: "convertToOBIS ''0100-f0800ff'' = Inr ''-15.8.0''"
  by code_simp

section \<open>Properties of \<open>DiscoverMeterID\<close>\<close>

lemma find_skip: "\<forall>x \<in> set xs. \<not> P x \<Longrightarrow> find P (xs @ ys) = find P ys"
  by (induction xs) simp_all

lemma DiscoverMeterID_loop_find:
  "DiscoverMeterID_loop G c ids =
     (case find (\<lambda>ident. sensor_domains G c ident \<noteq> []) ids of
        None \<Rightarrow> Inl NoContractWithSensorDomains
      | Some ident \<Rightarrow> Inr (c\<lparr>meterID := hd (sensor_domains G c ident)\<rparr>))"
proof (induction ids)
  case Nil
  show ?case by simp
next
  case (Cons ident rest)
  show ?case
  proof (cases "fetch_contract G c ident")
    case (Inl err)
    then show ?thesis
      using Cons.IH by (simp add: sensor_domains_def fetch_contract_def)
  next
    case (Inr contract)
    then show ?thesis
      using Cons.IH
      by (cases "SensorDomains contract")
         (simp_all add: sensor_domains_def fetch_contract_def)
  qed
qed

text \<open>
  C6: once the contract list is fetched, \<open>DiscoverMeterID\<close> goes through the
  identifiers in order, passes over every contract whose fetch fails or whose
  sensor-domain list is empty, and sets the meter ID to the first sensor domain of the
  first contract with a non-empty list; it fails only if no contract has one. Over the
  contracts A (no sensor domains), B (X, Y), C (Z) the meter ID becomes X.
\<close>

theorem DiscoverMeterID_first_eligible:
  assumes "contracts_fetched G c contracts"
  shows "(\<forall>skipped ident rest.
            contracts = skipped @ ident # rest \<and>
            (\<forall>s \<in> set skipped. sensor_domains G c s = []) \<and>
            sensor_domains G c ident \<noteq> [] \<longrightarrow>
            DiscoverMeterID G c = Inr (c\<lparr>meterID := hd (sensor_domains G c ident)\<rparr>)) \<and>
         ((\<forall>s \<in> set contracts. sensor_domains G c s = []) \<longrightarrow>
            DiscoverMeterID G c = Inl NoContractWithSensorDomains) \<and>
         ((\<exists>err. DiscoverMeterID G c = Inl err) \<longrightarrow>
            (\<forall>s \<in> set contracts. sensor_domains G c s = []))"
proof -
  have d: "DiscoverMeterID G c = DiscoverMeterID_loop G c contracts"
    using assms by (simp add: DiscoverMeterID_def contracts_fetched_def)
  have 1: "DiscoverMeterID G c = Inr (c\<lparr>meterID := hd (sensor_domains G c ident)\<rparr>)"
    if "contracts = skipped @ ident # rest"
      "\<forall>s \<in> set skipped. sensor_domains G c s = []"
      "sensor_domains G c ident \<noteq> []"
    for skipped ident rest
  proof -
    from that(2)
    have "find (\<lambda>i. sensor_domains G c i \<noteq> []) (skipped @ ident # rest) =
          find (\<lambda>i. sensor_domains G c i \<noteq> []) (ident # rest)"
      by (intro find_skip) simp
    with that(1,3)
    have "find (\<lambda>i. sensor_domains G c i \<noteq> []) contracts = Some ident"
      by simp
    then show ?thesis by (simp add: d DiscoverMeterID_loop_find)
  qed
  have 2: "DiscoverMeterID G c = Inl NoContractWithSensorDomains"
    if "\<forall>s \<in> set contracts. sensor_domains G c s = []"
  proof -
    from that have "find (\<lambda>i. sensor_domains G c i \<noteq> []) contracts = None"
      by (simp add: find_None_iff)
    then show ?thesis by (simp add: d DiscoverMeterID_loop_find)
  qed
  have 3: "\<forall>s \<in> set contracts. sensor_domains G c s = []"
    if "\<exists>err. DiscoverMeterID G c = Inl err"
  proof -
    from that have "find (\<lambda>i. sensor_domains G c i \<noteq> []) contracts = None"
      by (auto simp: d DiscoverMeterID_loop_find split: option.splits)
    then show ?thesis by (simp add: find_None_iff)
  qed
  from 1 2 3 show ?thesis by blast
qed

lemma abc_domains:
  "sensor_domains (abc_gateway ids) example_client ''D'' = []"
  "sensor_domains (abc_gateway ids) example_client ''A'' = []"
  "sensor_domains (abc_gateway ids) example_client ''B'' = [''X'', ''Y'']"
  "sensor_domains (abc_gateway ids) example_client ''C'' = [''Z'']"
  by (simp_all add: sensor_domains_def fetch_contract_def getJSON_def abc_gateway_def
        contract_uri_def example_client_def)

theorem DiscoverMeterID_first_eligible_witness:
  "contracts_fetched (abc_gateway [''A'', ''B'', ''C'']) example_client [''A'', ''B'', ''C''] \<and>
   fetch_contract (abc_gateway [''A'', ''B'', ''C'']) example_client ''A'' =
     Inr \<lparr>SensorDomains = []\<rparr> \<and>
   fetch_contract (abc_gateway [''A'', ''B'', ''C'']) example_client ''B'' =
     Inr \<lparr>SensorDomains = [''X'', ''Y'']\<rparr> \<and>
   fetch_contract (abc_gateway [''A'', ''B'', ''C'']) example_client ''C'' =
     Inr \<lparr>SensorDomains = [''Z'']\<rparr> \<and>
   DiscoverMeterID (abc_gateway [''A'', ''B'', ''C'']) example_client =
     Inr (example_client\<lparr>meterID := ''X''\<rparr>) \<and>
   contracts_fetched (abc_gateway [''D'', ''A'', ''C'']) example_client [''D'', ''A'', ''C''] \<and>
   fetch_contract (abc_gateway [''D'', ''A'', ''C'']) example_client ''D'' =
     Inl (UnexpectedStatusCode 404) \<and>
   DiscoverMeterID (abc_gateway [''D'', ''A'', ''C'']) example_client =
     Inr (example_client\<lparr>meterID := ''Z''\<rparr>) \<and>
   contracts_fetched (abc_gateway [''D'', ''A'']) example_client [''D'', ''A''] \<and>
   DiscoverMeterID (abc_gateway [''D'', ''A'']) example_client = Inl NoContractWithSensorDomains"
proof -
  have f: "contracts_fetched (abc_gateway ids) example_client ids" for ids
    by (simp add: contracts_fetched_def getJSON_def abc_gateway_def)
  have c: "fetch_contract (abc_gateway ids) example_client ''D'' = Inl (UnexpectedStatusCode 404)"
    "fetch_contract (abc_gateway ids) example_client ''A'' = Inr \<lparr>SensorDomains = []\<rparr>"
    "fetch_contract (abc_gateway ids) example_client ''B'' = Inr \<lparr>SensorDomains = [''X'', ''Y'']\<rparr>"
    "fetch_contract (abc_gateway ids) example_client ''C'' = Inr \<lparr>SensorDomains = [''Z'']\<rparr>"
    for ids
    by (simp_all add: fetch_contract_def getJSON_def abc_gateway_def contract_uri_def
          example_client_def)
  have s1: "[''A'', ''B'', ''C''] = [''A''] @ ''B'' # [''C'']"
    "\<forall>s \<in> set [''A'']. sensor_domains (abc_gateway [''A'', ''B'', ''C'']) example_client s = []"
    "sensor_domains (abc_gateway [''A'', ''B'', ''C'']) example_client ''B'' \<noteq> []"
    by (simp_all add: abc_domains)
  from DiscoverMeterID_first_eligible [OF f [of "[''A'', ''B'', ''C'']"]] s1
  have 1: "DiscoverMeterID (abc_gateway [''A'', ''B'', ''C'']) example_client =
      Inr (example_client\<lparr>meterID :=
        hd (sensor_domains (abc_gateway [''A'', ''B'', ''C'']) example_client ''B'')\<rparr>)"
    by blast
  have s2: "[''D'', ''A'', ''C''] = [''D'', ''A''] @ ''C'' # []"
    "\<forall>s \<in> set [''D'', ''A'']. sensor_domains (abc_gateway [''D'', ''A'', ''C'']) example_client s = []"
    "sensor_domains (abc_gateway [''D'', ''A'', ''C'']) example_client ''C'' \<noteq> []"
    by (simp_all add: abc_domains)
  from DiscoverMeterID_first_eligible [OF f [of "[''D'', ''A'', ''C'']"]] s2
  have 2: "DiscoverMeterID (abc_gateway [''D'', ''A'', ''C'']) example_client =
      Inr (example_client\<lparr>meterID :=
        hd (sensor_domains (abc_gateway [''D'', ''A'', ''C'']) example_client ''C'')\<rparr>)"
    by blast
  have s3: "\<forall>s \<in> set [''D'', ''A'']. sensor_domains (abc_gateway [''D'', ''A'']) example_client s = []"
    by (simp add: abc_domains)
  from DiscoverMeterID_first_eligible [OF f [of "[''D'', ''A'']"]] s3
  have 3: "DiscoverMeterID (abc_gateway [''D'', ''A'']) example_client =
      Inl NoContractWithSensorDomains"
    by blast
  from 1 2 3 f c show ?thesis by (simp add: abc_domains)
qed

section \<open>Properties of \<open>defaultScheme\<close>\<close>

lemma HasPrefix_append: "HasPrefix (p @ s) p"
  by (simp add: HasPrefix_def)

lemma defaultScheme_fixed:
  "HasPrefix u ''http://'' \<or> HasPrefix u ''https://'' \<Longrightarrow> defaultScheme u scheme = u"
  by (auto simp: defaultScheme_def)

text \<open>
  C10, as amended: when the default scheme is \<open>"http"\<close> or \<open>"https"\<close>
  (\<open>NewClient\<close> passes \<open>"https"\<close>), the output of \<open>defaultScheme\<close> starts with
  \<open>"http://"\<close> or \<open>"https://"\<close>, a uri that already starts with one of them is
  returned unchanged, and applying \<open>defaultScheme\<close> twice equals applying it once.
\<close>

theorem defaultScheme_idempotent:
  assumes "scheme = ''http'' \<or> scheme = ''https''"
  shows "(HasPrefix (defaultScheme u scheme) ''http://'' \<or>
          HasPrefix (defaultScheme u scheme) ''https://'') \<and>
         (HasPrefix u ''http://'' \<or> HasPrefix u ''https://'' \<longrightarrow> defaultScheme u scheme = u) \<and>
         defaultScheme (defaultScheme u scheme) scheme = defaultScheme u scheme"
proof -
  have p: "HasPrefix (defaultScheme u scheme) ''http://'' \<or>
           HasPrefix (defaultScheme u scheme) ''https://''"
  proof (cases "HasPrefix u ''http://'' \<or> HasPrefix u ''https://''")
    case True
    then show ?thesis by (simp only: defaultScheme_fixed)
  next
    case False
    then have "defaultScheme u scheme = scheme @ ''://'' @ u"
      by (simp add: defaultScheme_def)
    moreover have "HasPrefix (''http'' @ ''://'' @ u) ''http://''"
      using HasPrefix_append [of "''http://''" u] by simp
    moreover have "HasPrefix (''https'' @ ''://'' @ u) ''https://''"
      using HasPrefix_append [of "''https://''" u] by simp
    ultimately show ?thesis using assms by auto
  qed
  then have "defaultScheme (defaultScheme u scheme) scheme = defaultScheme u scheme"
    by (rule defaultScheme_fixed)
  with p show ?thesis by (simp add: defaultScheme_fixed)
qed

theorem defaultScheme_idempotent_witness:
  "(''https'' = ''http'' \<or> ''https'' = ''https'') \<and>
   defaultScheme ''192.168.33.2'' ''https'' = ''https://192.168.33.2'' \<and>
   defaultScheme (defaultScheme ''192.168.33.2'' ''https'') ''https'' = ''https://192.168.33.2'' \<and>
   HasPrefix ''http://gw'' ''http://'' \<and>
   defaultScheme ''http://gw'' ''https'' = ''http://gw''"
  using defaultScheme_idempotent [of "''https''" "''192.168.33.2''"]
    defaultScheme_idempotent [of "''https''" "''http://gw''"]
  by (simp add: defaultScheme_def HasPrefix_def)

text \<open>
  With another default scheme the output need not start with \<open>"http://"\<close> or
  \<open>"https://"\<close>, and a second application adds the scheme again.
\<close>

theorem defaultScheme_other_scheme:
  "defaultScheme ''foo'' ''ftp'' = ''ftp://foo'' \<and>
   \<not> HasPrefix (defaultScheme ''foo'' ''ftp'') ''http://'' \<and>
   \<not> HasPrefix (defaultScheme ''foo'' ''ftp'') ''https://'' \<and>
   defaultScheme (defaultScheme ''foo'' ''ftp'') ''ftp'' = ''ftp://ftp://foo''"
  by (simp add: defaultScheme_def HasPrefix_def)

section \<open>Properties of the digest authentication transport\<close>

lemma logged_apply:
  "logged send (trace, w) req = (fst (send w req), (trace @ [(req, fst (send w req))], snd (send w req)))"
  by (simp add: logged_def split: prod.splits)

lemma always_rejectsD:
  "always_rejects D send \<Longrightarrow>
     \<exists>resp. fst (send w req) = Inr resp \<and> offered_challenge D resp \<noteq> None"
  unfolding always_rejects_def by blast

lemma challenge_exchange_logged:
  "case challenge_exchange D (logged send) st (trace, w) req of
     (out, st', (trace', w')) \<Rightarrow>
       (\<exists>u rest. trace' = trace @ u # rest \<and> \<not> authenticated u \<and>
          length rest \<le> 1 \<and> list_all authenticated rest \<and>
          (\<forall>resp. out = Surfaced resp \<longrightarrow> snd (last (u # rest)) = Inr resp) \<and>
          (\<forall>a. rest = [a] \<longrightarrow>
             out = (case snd a of Inl err \<Rightarrow> TransportError err | Inr resp \<Rightarrow> Surfaced resp)) \<and>
          (always_rejects D send \<longrightarrow>
             length rest = 1 \<and> (\<exists>resp. out = Surfaced resp \<and> resp_status resp = 401)))"
proof -
  let ?r0 = "req\<lparr>req_authorization := None\<rparr>"
  show ?thesis
  proof (cases "fst (send w ?r0)")
    case (Inl err)
    then have "\<not> always_rejects D send"
      using always_rejectsD [of D send w ?r0] by auto
    with Inl show ?thesis
      by (simp add: challenge_exchange_def logged_apply authenticated_def)
  next
    case (Inr resp0)
    show ?thesis
    proof (cases "offered_challenge D resp0")
      case None
      with Inr have "\<not> always_rejects D send"
        using always_rejectsD [of D send w ?r0] by auto
      with Inr None show ?thesis
        by (simp add: challenge_exchange_def logged_apply authenticated_def)
    next
      case (Some chal)
      let ?r1 = "authorize D chal 1 (client_nonce D (attempts st)) req"
      show ?thesis
      proof (cases "fst (send (snd (send w ?r0)) ?r1)")
        case (Inl err)
        then have "\<not> always_rejects D send"
          using always_rejectsD [of D send "snd (send w ?r0)" ?r1] by auto
        with Inr Some Inl show ?thesis
          by (simp add: challenge_exchange_def logged_apply authenticated_def Let_def
                authorize_def)
      next
        case r1: (Inr resp1)
        have "always_rejects D send \<Longrightarrow> resp_status resp1 = 401"
        proof -
          assume "always_rejects D send"
          then obtain r where "fst (send (snd (send w ?r0)) ?r1) = Inr r"
            "offered_challenge D r \<noteq> None"
            using always_rejectsD [of D send "snd (send w ?r0)" ?r1] by blast
          with r1 show ?thesis
            by (auto simp: offered_challenge_def split: if_splits)
        qed
        with Inr Some r1 show ?thesis
          by (simp add: challenge_exchange_def logged_apply authenticated_def Let_def
                authorize_def)
      qed
    qed
  qed
qed

lemma filter_authenticated_all:
  "list_all authenticated rest \<Longrightarrow> filter authenticated rest = rest"
  by (simp add: list_all_iff filter_id_conv)

lemma filter_unauthenticated_none:
  "list_all authenticated rest \<Longrightarrow> filter (\<lambda>e. \<not> authenticated e) rest = []"
  by (simp add: list_all_iff filter_empty_conv)

text \<open>
  C7: for every request, every state of the transport and every server, one call of
  \<open>RoundTrip\<close> sends at most three requests (two when no challenge is cached): the
  first carries credentials exactly when a challenge is cached, at most one request is
  sent without credentials, and at most one request with credentials is sent after the
  first, so no request is sent again with credentials more than once. That retry, when
  there is one, is the last request of the call, and the server's answer to it, whatever
  it is, is the outcome. Against a server that answers every request with a 401 and a
  challenge the outcome is the server's 401; when its challenges are fresh (a new nonce
  each time, for instance) there is exactly one retry, with or without a cached
  challenge.
\<close>

theorem RoundTrip_single_retry:
  "case RoundTrip D (logged send) st ([], w) req of
     (out, st', (trace, w')) \<Rightarrow>
       trace \<noteq> [] \<and> length trace \<le> 3 \<and>
       (authenticated (hd trace) \<longleftrightarrow> cache st (req_authority req) \<noteq> None) \<and>
       (cache st (req_authority req) = None \<longrightarrow> length trace \<le> 2) \<and>
       length (filter (\<lambda>e. \<not> authenticated e) trace) \<le> 1 \<and>
       length (retries trace) \<le> 1 \<and>
       (\<forall>resp. out = Surfaced resp \<longrightarrow> snd (last trace) = Inr resp) \<and>
       (\<forall>a. retries trace = [a] \<longrightarrow>
          last trace = a \<and>
          out = (case snd a of Inl err \<Rightarrow> TransportError err | Inr resp \<Rightarrow> Surfaced resp)) \<and>
       (always_rejects D send \<longrightarrow> (\<exists>resp. out = Surfaced resp \<and> resp_status resp = 401)) \<and>
       (always_fresh D send st req \<longrightarrow>
          length (retries trace) = 1 \<and>
          length trace = (if cache st (req_authority req) = None then 2 else 3))"
proof (cases "cache st (req_authority req)")
  case None
  obtain out st' trace' w' where
    e: "challenge_exchange D (logged send) st ([], w) req = (out, st', (trace', w'))"
    by (metis prod_cases3)
  with challenge_exchange_logged [where D = D and send = send and st = st and trace = "[]"
      and w = w and req = req]
  obtain u rest where t: "trace' = u # rest" "\<not> authenticated u" "length rest \<le> 1"
      "list_all authenticated rest"
      "\<forall>resp. out = Surfaced resp \<longrightarrow> snd (last (u # rest)) = Inr resp"
      "\<forall>a. rest = [a] \<longrightarrow>
         out = (case snd a of Inl err \<Rightarrow> TransportError err | Inr resp \<Rightarrow> Surfaced resp)"
      "always_rejects D send \<longrightarrow>
         length rest = 1 \<and> (\<exists>resp. out = Surfaced resp \<and> resp_status resp = 401)"
    by auto
  from t(4) have r: "retries (u # rest) = rest"
    by (simp add: retries_def filter_authenticated_all)
  from t(2,4) have n: "filter (\<lambda>e. \<not> authenticated e) (u # rest) = [u]"
    by (simp add: filter_unauthenticated_none)
  have f: "always_fresh D send st req \<Longrightarrow> always_rejects D send"
    by (simp add: always_fresh_def)
  from t None e r n f show ?thesis
    by (auto simp: RoundTrip_def)
next
  case (Some cached)
  obtain chal nc where cached: "cached = (chal, nc)" by (cases cached)
  let ?r = "authorize D chal (nc + 1) (client_nonce D (attempts st)) req"
  let ?st1 = "st\<lparr>cache := (cache st)(req_authority req \<mapsto> (chal, nc + 1)),
                  attempts := attempts st + 1\<rparr>"
  let ?e = "(?r, fst (send w ?r))"
  have auth: "authenticated ?e"
    by (simp add: authenticated_def authorize_def)
  show ?thesis
  proof (cases "fst (send w ?r)")
    case (Inl err)
    then have "\<not> always_rejects D send"
      using always_rejectsD [of D send w ?r] by auto
    then have "\<not> always_fresh D send st req"
      by (simp add: always_fresh_def)
    with \<open>\<not> always_rejects D send\<close> Inl Some cached auth show ?thesis
      by (simp add: RoundTrip_def Let_def logged_apply retries_def)
  next
    case (Inr resp)
    show ?thesis
    proof (cases "fresh_challenge D chal resp")
      case False
      have "always_rejects D send \<Longrightarrow> resp_status resp = 401"
      proof -
        assume "always_rejects D send"
        then obtain r' where "fst (send w ?r) = Inr r'" "offered_challenge D r' \<noteq> None"
          using always_rejectsD [of D send w ?r] by blast
        with Inr show ?thesis
          by (auto simp: offered_challenge_def split: if_splits)
      qed
      moreover have "\<not> always_fresh D send st req"
        using False Inr Some cached unfolding always_fresh_def by blast
      ultimately show ?thesis
        using Inr False Some cached auth
        by (simp add: RoundTrip_def Let_def logged_apply retries_def)
    next
      case True
      let ?st2 = "?st1\<lparr>cache := (cache ?st1)(req_authority req := None)\<rparr>"
      obtain out st' trace' w' where
        e: "challenge_exchange D (logged send) ?st2 ([?e], snd (send w ?r)) req =
              (out, st', (trace', w'))"
        by (metis prod_cases3)
      with challenge_exchange_logged [where D = D and send = send and st = ?st2
        and trace = "[?e]" and w = "snd (send w ?r)" and req = req]
      obtain u rest where t: "trace' = ?e # u # rest" "\<not> authenticated u" "length rest \<le> 1"
          "list_all authenticated rest"
          "\<forall>resp. out = Surfaced resp \<longrightarrow> snd (last (u # rest)) = Inr resp"
          "\<forall>a. rest = [a] \<longrightarrow>
             out = (case snd a of Inl err \<Rightarrow> TransportError err | Inr resp \<Rightarrow> Surfaced resp)"
          "always_rejects D send \<longrightarrow>
             length rest = 1 \<and> (\<exists>resp. out = Surfaced resp \<and> resp_status resp = 401)"
        by auto
      from t(2,4) have r: "retries (?e # u # rest) = rest"
        by (simp add: retries_def filter_authenticated_all)
      from auth t(2,4) have n: "filter (\<lambda>e. \<not> authenticated e) (?e # u # rest) = [u]"
        by (simp add: filter_unauthenticated_none)
      have f: "always_fresh D send st req \<Longrightarrow> always_rejects D send"
        by (simp add: always_fresh_def)
      have "RoundTrip D (logged send) st ([], w) req = (out, st', (?e # u # rest, w'))"
        using Inr True Some cached e t(1)
        by (simp add: RoundTrip_def Let_def logged_apply)
      with t(2-) r n f auth Some show ?thesis
        by auto
    qed
  qed
qed


lemma fresh_nonce_server_rejects: "always_rejects example_config fresh_nonce_server"
  by (simp add: always_rejects_def fresh_nonce_server_def offered_challenge_def
        example_config_def)

lemma fresh_nonce_server_fresh:
  "always_fresh example_config fresh_nonce_server no_challenge_cached example_request"
  "always_fresh example_config fresh_nonce_server old_challenge_cached example_request"
  by (simp_all add: always_fresh_def fresh_nonce_server_rejects)
     (simp_all add: no_challenge_cached_def old_challenge_cached_def example_request_def
        fresh_challenge_def offered_challenge_def fresh_nonce_server_def example_config_def)

theorem RoundTrip_single_retry_witness:
  "always_fresh example_config fresh_nonce_server no_challenge_cached example_request \<and>
   (case RoundTrip example_config (logged fresh_nonce_server) no_challenge_cached ([], 0)
           example_request of
      (out, st', (trace, w')) \<Rightarrow>
        out = Surfaced \<lparr>resp_status = 401, resp_challenge = Some (CHR ''n'' # digits 1),
                         resp_body = []\<rparr> \<and>
        length trace = 2 \<and> length (retries trace) = 1 \<and> w' = 2) \<and>
   always_fresh example_config fresh_nonce_server old_challenge_cached example_request \<and>
   (case RoundTrip example_config (logged fresh_nonce_server) old_challenge_cached ([], 0)
           example_request of
      (out, st', (trace, w')) \<Rightarrow>
        out = Surfaced \<lparr>resp_status = 401, resp_challenge = Some (CHR ''n'' # digits 2),
                         resp_body = []\<rparr> \<and>
        length trace = 3 \<and> length (retries trace) = 1 \<and> w' = 3)"
proof -
  have c: "cache no_challenge_cached (req_authority example_request) = None"
    "cache old_challenge_cached (req_authority example_request) \<noteq> None"
    by (simp_all add: no_challenge_cached_def old_challenge_cached_def example_request_def)
  have e1: "fst (RoundTrip example_config (logged fresh_nonce_server) no_challenge_cached
               ([], 0) example_request) =
         Surfaced \<lparr>resp_status = 401, resp_challenge = Some (CHR ''n'' # digits 1),
                    resp_body = []\<rparr>"
    "snd (snd (snd (RoundTrip example_config (logged fresh_nonce_server) no_challenge_cached
               ([], 0) example_request))) = 2"
    by (simp_all add: RoundTrip_def challenge_exchange_def logged_apply fresh_nonce_server_def
          offered_challenge_def example_config_def Let_def no_challenge_cached_def)
  have e2: "fst (RoundTrip example_config (logged fresh_nonce_server) old_challenge_cached
               ([], 0) example_request) =
         Surfaced \<lparr>resp_status = 401, resp_challenge = Some (CHR ''n'' # digits 2),
                    resp_body = []\<rparr>"
    "snd (snd (snd (RoundTrip example_config (logged fresh_nonce_server) old_challenge_cached
               ([], 0) example_request))) = 3"
    by (simp_all add: RoundTrip_def challenge_exchange_def logged_apply fresh_nonce_server_def
          offered_challenge_def fresh_challenge_def example_config_def Let_def
          old_challenge_cached_def example_request_def numeral_2_eq_2)
  from RoundTrip_single_retry [where D = example_config and send = fresh_nonce_server
      and st = no_challenge_cached and w = 0 and req = example_request]
    fresh_nonce_server_fresh(1) c(1) e1
  have 1: "case RoundTrip example_config (logged fresh_nonce_server) no_challenge_cached ([], 0)
           example_request of
      (out, st', (trace, w')) \<Rightarrow>
        out = Surfaced \<lparr>resp_status = 401, resp_challenge = Some (CHR ''n'' # digits 1),
                         resp_body = []\<rparr> \<and>
        length trace = 2 \<and> length (retries trace) = 1 \<and> w' = 2"
    by (auto split: prod.splits)
  from RoundTrip_single_retry [where D = example_config and send = fresh_nonce_server
      and st = old_challenge_cached and w = 0 and req = example_request]
    fresh_nonce_server_fresh(2) c(2) e2
  have 2: "case RoundTrip example_config (logged fresh_nonce_server) old_challenge_cached ([], 0)
           example_request of
      (out, st', (trace, w')) \<Rightarrow>
        out = Surfaced \<lparr>resp_status = 401, resp_challenge = Some (CHR ''n'' # digits 2),
                         resp_body = []\<rparr> \<and>
        length trace = 3 \<and> length (retries trace) = 1 \<and> w' = 3"
    by (auto split: prod.splits)
  from 1 2 fresh_nonce_server_fresh show ?thesis by blast
qed

end
